theory Spec2Isabelle
  imports Complex_Main "HOL-Library.AList" "HOL-Library.Multiset"
begin

section \<open>Python primitives used by the sources\<close>

text \<open>
  Strings are lists of characters; a character stands for the code point of the same
  number.  \<open>py_isspace_cp\<close> is the set of code points that \<open>str.strip()\<close> removes.
\<close>

definition py_isspace_cp :: "nat \<Rightarrow> bool" where
  "py_isspace_cp n \<longleftrightarrow>
     (9 \<le> n \<and> n \<le> 13) \<or> (28 \<le> n \<and> n \<le> 32) \<or> n = 133 \<or> n = 160 \<or> n = 5760 \<or>
     (8192 \<le> n \<and> n \<le> 8202) \<or> n = 8232 \<or> n = 8233 \<or> n = 8239 \<or> n = 8287 \<or> n = 12288"

definition is_space :: "char \<Rightarrow> bool" where
  "is_space c = py_isspace_cp (of_char c)"

definition py_strip :: "string \<Rightarrow> string" where
  "py_strip s = rev (dropWhile is_space (rev (dropWhile is_space s)))"

text \<open>
  \<open>xs[start:stop]\<close> with Python's treatment of negative and out-of-range bounds.
\<close>

definition py_slice :: "'a list \<Rightarrow> int \<Rightarrow> int \<Rightarrow> 'a list" where
  "py_slice xs start stop =
     (let n = int (length xs);
          lo = (if start < 0 then max (start + n) 0 else min start n);
          hi = (if stop < 0 then max (stop + n) 0 else min stop n)
      in take (nat (hi - lo)) (drop (nat lo) xs))"

section \<open>utils/chunking.py\<close>

text \<open>
  The tokenizer (tiktoken's \<open>cl100k_base\<close>) is a library object; the chunker only calls
  its \<open>encode\<close> and \<open>decode\<close>, so both are parameters.
\<close>

type_synonym token = nat

record tokenizer =
  tk_encode :: "string \<Rightarrow> token list"
  tk_decode :: "token list \<Rightarrow> string"

record Chunk =
  ck_text :: string
  ck_token_count :: int
  ck_page_number :: "int option"
  ck_section :: "string option"
  ck_index :: int

text \<open>
  The \<open>while start < total_tokens\<close> loop of \<open>chunk_text\<close>.  The loop need not terminate,
  so the result is an option: \<open>None\<close> is a run that never returns.
\<close>

partial_function (option) chunk_loop ::
  "tokenizer \<Rightarrow> token list \<Rightarrow> int \<Rightarrow> int \<Rightarrow> int option \<Rightarrow> string option \<Rightarrow>
     int \<Rightarrow> int \<Rightarrow> Chunk list \<Rightarrow> Chunk list option"
where
  "chunk_loop enc tokens chunk_size chunk_overlap page_number section' start idx chunks =
     (if start < int (length tokens) then
        (let stop = min (start + chunk_size) (int (length tokens));
             chunk_tokens = py_slice tokens start stop;
             chunk_text_str = py_strip (tk_decode enc chunk_tokens);
             chunks' = (if chunk_text_str \<noteq> [] then
                          chunks @ [\<lparr>ck_text = chunk_text_str,
                                     ck_token_count = int (length chunk_tokens),
                                     ck_page_number = page_number,
                                     ck_section = section',
                                     ck_index = idx\<rparr>]
                        else chunks);
             idx' = (if chunk_text_str \<noteq> [] then idx + 1 else idx)
         in if stop \<ge> int (length tokens) then Some chunks'
            else chunk_loop enc tokens chunk_size chunk_overlap page_number section'
                   (stop - chunk_overlap) idx' chunks')
      else Some chunks)"

declare chunk_loop.simps [code]

definition chunk_text ::
  "tokenizer \<Rightarrow> string \<Rightarrow> int \<Rightarrow> int \<Rightarrow> int option \<Rightarrow> string option \<Rightarrow> Chunk list option"
where
  "chunk_text enc text' chunk_size chunk_overlap page_number section' =
     (if text' = [] \<or> py_strip text' = [] then Some []
      else
        (let tokens = tk_encode enc text';
             total_tokens = int (length tokens)
         in if total_tokens \<le> chunk_size then
              Some [\<lparr>ck_text = py_strip text',
                     ck_token_count = total_tokens,
                     ck_page_number = page_number,
                     ck_section = section',
                     ck_index = 0\<rparr>]
            else chunk_loop enc tokens chunk_size chunk_overlap page_number section' 0 0 []))"

definition DEFAULT_CHUNK_SIZE :: int where "DEFAULT_CHUNK_SIZE = 500"
definition DEFAULT_CHUNK_OVERLAP :: int where "DEFAULT_CHUNK_OVERLAP = 50"

text \<open>
  A byte-level tokenizer without merges: one token per character.  It instantiates the
  tokenizer parameter in the concrete evaluations below.
\<close>

definition byte_tokenizer :: tokenizer where
  "byte_tokenizer = \<lparr>tk_encode = map of_char, tk_decode = map char_of\<rparr>"

text \<open>
  The windows the specification describes: window \<open>i\<close> starts at token
  \<open>i * (chunk_size - overlap)\<close>, is \<open>chunk_size\<close> tokens long and is cut at the end of
  the text; there are \<open>ceil((n - overlap) / (chunk_size - overlap))\<close> of them.
\<close>

definition window_count :: "int \<Rightarrow> int \<Rightarrow> int \<Rightarrow> nat" where
  "window_count chunk_size chunk_overlap n =
     nat \<lceil>real_of_int (n - chunk_overlap) / real_of_int (chunk_size - chunk_overlap)\<rceil>"

definition spec_window :: "int \<Rightarrow> int \<Rightarrow> int \<Rightarrow> nat \<Rightarrow> int \<times> int" where
  "spec_window chunk_size chunk_overlap n i =
     (int i * (chunk_size - chunk_overlap),
      min (int i * (chunk_size - chunk_overlap) + chunk_size) n)"

definition spec_windows :: "int \<Rightarrow> int \<Rightarrow> int \<Rightarrow> (int \<times> int) list" where
  "spec_windows chunk_size chunk_overlap n =
     map (spec_window chunk_size chunk_overlap n) [0..<window_count chunk_size chunk_overlap n]"

definition window_tokens :: "token list \<Rightarrow> int \<times> int \<Rightarrow> token list" where
  "window_tokens tokens w = py_slice tokens (fst w) (snd w)"

definition window_text :: "tokenizer \<Rightarrow> token list \<Rightarrow> int \<times> int \<Rightarrow> string" where
  "window_text enc tokens w = py_strip (tk_decode enc (window_tokens tokens w))"

text \<open>
  The specification's chunk list for a list of windows: each window is decoded and
  trimmed, empty decodes are skipped, the chunks kept are numbered from \<open>idx\<close>.
\<close>

fun window_chunks ::
  "tokenizer \<Rightarrow> token list \<Rightarrow> int option \<Rightarrow> string option \<Rightarrow> int \<Rightarrow> (int \<times> int) list \<Rightarrow> Chunk list"
where
  "window_chunks enc tokens pg sec idx [] = []"
| "window_chunks enc tokens pg sec idx (w # ws) =
     (if window_text enc tokens w \<noteq> [] then
        \<lparr>ck_text = window_text enc tokens w,
         ck_token_count = int (length (window_tokens tokens w)),
         ck_page_number = pg, ck_section = sec, ck_index = idx\<rparr>
          # window_chunks enc tokens pg sec (idx + 1) ws
      else window_chunks enc tokens pg sec idx ws)"

section \<open>utils/vectordb.py\<close>

datatype py_error = IndexError | KeyError

datatype json = JNull | JInt int | JStr string

type_synonym metadata = "(string \<times> json) list"

text \<open>
  A floating-point value, of Python's \<open>float\<close> or of numpy's \<open>float32\<close>: a finite number,
  an infinity or NaN (the sign of a zero is not kept).  The comparisons \<open><\<close> and \<open><=\<close> are
  exact, and false whenever an operand is NaN; \<open>max(a, b)\<close> is \<open>b\<close> when \<open>b > a\<close> and \<open>a\<close>
  otherwise.
\<close>

datatype pyfloat = Fin real | PInf | NInf | NaN

fun py_lt :: "pyfloat \<Rightarrow> pyfloat \<Rightarrow> bool" where
  "py_lt (Fin a) (Fin b) = (a < b)"
| "py_lt (Fin a) PInf = True"
| "py_lt NInf (Fin b) = True"
| "py_lt NInf PInf = True"
| "py_lt x y = False"

fun py_le :: "pyfloat \<Rightarrow> pyfloat \<Rightarrow> bool" where
  "py_le (Fin a) (Fin b) = (a \<le> b)"
| "py_le (Fin a) PInf = True"
| "py_le NInf (Fin b) = True"
| "py_le NInf NInf = True"
| "py_le NInf PInf = True"
| "py_le PInf PInf = True"
| "py_le x y = False"

definition py_max :: "pyfloat \<Rightarrow> pyfloat \<Rightarrow> pyfloat" where
  "py_max a b = (if py_lt a b then b else a)"

text \<open>
  The arithmetic is not fixed here.  What numpy computes on \<open>float32\<close> arrays and scalars
  (conversion of a list to an array, \<open>np.dot\<close>, \<open>np.linalg.norm\<close>, product and quotient of
  two scalars) and the subtraction of two Python floats are parameters: nothing is
  assumed about rounding, overflow or underflow.  None of these operations raises.
\<close>

record float_lib =
  np_array :: "pyfloat list \<Rightarrow> pyfloat list"
  np_dot :: "pyfloat list \<Rightarrow> pyfloat list \<Rightarrow> pyfloat"
  np_norm :: "pyfloat list \<Rightarrow> pyfloat"
  np_mul :: "pyfloat \<Rightarrow> pyfloat \<Rightarrow> pyfloat"
  np_div :: "pyfloat \<Rightarrow> pyfloat \<Rightarrow> pyfloat"
  fl_sub :: "pyfloat \<Rightarrow> pyfloat \<Rightarrow> pyfloat"

text \<open>
  \<open>list.sort(key=...)\<close>: a stable sort that compares the keys with \<open><\<close> only.  Here each
  element is inserted into the sorted part from its right end, past the elements it is
  less than.  Where \<open><\<close> orders the keys (no NaN among them) the result is the sorted list
  with equal keys in their first order, which is what every stable sort returns.  With a
  NaN among the keys \<open><\<close> is not an order: \<open>list.sort\<close> still returns a rearrangement of the
  list, but one that need not be sorted and that depends on the order of its comparisons;
  a list of two elements is swapped exactly when the second key is less than the first,
  in \<open>list.sort\<close> as here.  \<open>list.sort(key=..., reverse=True)\<close> reverses the list, sorts it
  and reverses it again.
\<close>

fun py_insort_rev :: "('a \<Rightarrow> pyfloat) \<Rightarrow> 'a \<Rightarrow> 'a list \<Rightarrow> 'a list" where
  "py_insort_rev key x [] = [x]"
| "py_insort_rev key x (y # ys) =
     (if py_lt (key x) (key y) then y # py_insort_rev key x ys else x # y # ys)"

definition py_sort_key :: "('a \<Rightarrow> pyfloat) \<Rightarrow> 'a list \<Rightarrow> 'a list" where
  "py_sort_key key xs = rev (fold (py_insort_rev key) xs [])"

definition py_sort_key_reverse :: "('a \<Rightarrow> pyfloat) \<Rightarrow> 'a list \<Rightarrow> 'a list" where
  "py_sort_key_reverse key xs = rev (py_sort_key key (rev xs))"

text \<open>
  A row of the table \<open>vectors\<close>.  The column \<open>id\<close> is the primary key.  An embedding is
  stored as the bytes of a \<open>float32\<close> array: \<open>_to_blob\<close> is the conversion \<open>np_array\<close>,
  \<open>_from_blob\<close> gives the stored values back.  The table is the list of its rows in rowid
  order.
\<close>

record vector_row =
  row_id :: string
  row_record_id :: string
  row_embedding :: "pyfloat list"
  row_document :: string
  row_metadata :: metadata

type_synonym vector_db = "vector_row list"

text \<open>
  \<open>INSERT OR REPLACE\<close>: a row with the same primary key is deleted, the new row is
  inserted (with a fresh rowid, so at the end).
\<close>

definition insert_or_replace :: "vector_row \<Rightarrow> vector_db \<Rightarrow> vector_db" where
  "insert_or_replace r db = filter (\<lambda>x. row_id x \<noteq> row_id r) db @ [r]"

definition cosine_similarity :: "float_lib \<Rightarrow> pyfloat list \<Rightarrow> pyfloat list \<Rightarrow> pyfloat" where
  "cosine_similarity fl a b =
     (let min_len = min (length a) (length b) in
      if min_len = 0 then Fin 0
      else
        (let a' = py_slice a 0 (int min_len);
             b' = py_slice b 0 (int min_len);
             dot = np_dot fl a' b';
             norm_a = np_norm fl a';
             norm_b = np_norm fl b'
         in if norm_a = Fin 0 \<or> norm_b = Fin 0 then Fin 0
            else np_div fl dot (np_mul fl norm_a norm_b)))"

text \<open>
  The loop of \<open>add_vectors\<close> over \<open>enumerate(ids)\<close>.  \<open>embeddings[i]\<close> and \<open>metas[i]\<close> raise
  \<open>IndexError\<close> out of range; the rows written before the error stay in the connection.
\<close>

fun add_vectors_loop ::
  "float_lib \<Rightarrow> string \<Rightarrow> nat \<Rightarrow> string list \<Rightarrow> pyfloat list list \<Rightarrow> string list \<Rightarrow>
     metadata list \<Rightarrow> vector_db \<Rightarrow> py_error option \<times> vector_db"
where
  "add_vectors_loop fl record_id i [] embeddings documents metas db = (None, db)"
| "add_vectors_loop fl record_id i (vid # ids) embeddings documents metas db =
     (if length embeddings \<le> i then (Some IndexError, db)
      else if length metas \<le> i then (Some IndexError, db)
      else add_vectors_loop fl record_id (i + 1) ids embeddings documents metas
             (insert_or_replace
                \<lparr>row_id = vid,
                 row_record_id = record_id,
                 row_embedding = np_array fl (embeddings ! i),
                 row_document = (if i < length documents then documents ! i else []),
                 row_metadata = metas ! i\<rparr> db))"

definition add_vectors ::
  "float_lib \<Rightarrow> string \<Rightarrow> string list \<Rightarrow> pyfloat list list \<Rightarrow> string list \<Rightarrow>
     metadata list option \<Rightarrow> vector_db \<Rightarrow> py_error option \<times> vector_db"
where
  "add_vectors fl record_id ids embeddings documents metadatas db =
     (if ids = [] then (None, db)
      else
        (let metas = (case metadatas of
                        None \<Rightarrow> replicate (length ids) []
                      | Some [] \<Rightarrow> replicate (length ids) []
                      | Some (m # ms) \<Rightarrow> m # ms)
         in add_vectors_loop fl record_id 0 ids embeddings documents metas db))"

record vector_hit =
  hit_id :: string
  hit_distance :: pyfloat
  hit_document :: string
  hit_metadata :: metadata

text \<open>The body of the loop of \<open>query_vectors\<close> that scores the selected rows.\<close>

definition scored_row :: "float_lib \<Rightarrow> pyfloat list \<Rightarrow> vector_row \<Rightarrow> pyfloat \<times> vector_hit" where
  "scored_row fl query_vec r =
     (let emb = row_embedding r;
          sim = cosine_similarity fl query_vec emb;
          distance = fl_sub fl (Fin 1) sim
      in (distance,
          \<lparr>hit_id = row_id r, hit_distance = distance,
           hit_document = row_document r, hit_metadata = row_metadata r\<rparr>))"

definition query_vectors ::
  "float_lib \<Rightarrow> vector_db \<Rightarrow> string \<Rightarrow> pyfloat list \<Rightarrow> int \<Rightarrow> vector_hit list"
where
  "query_vectors fl db record_id query_embedding top_k =
     (let rows = filter (\<lambda>r. row_record_id r = record_id) db in
      if rows = [] then []
      else
        (let query_vec = np_array fl query_embedding;
             scored = map (scored_row fl query_vec) rows
         in map snd (py_slice (py_sort_key fst scored) 0 top_k)))"

definition delete_collection :: "vector_db \<Rightarrow> string \<Rightarrow> vector_db" where
  "delete_collection db record_id = filter (\<lambda>r. row_record_id r \<noteq> record_id) db"

definition collection_count :: "vector_db \<Rightarrow> string \<Rightarrow> int" where
  "collection_count db record_id = int (length (filter (\<lambda>r. row_record_id r = record_id) db))"

text \<open>The states of the store: the empty table and what the module's writers make of it.\<close>

inductive reachable :: "vector_db \<Rightarrow> bool" where
  reachable_init: "reachable []"
| reachable_add:
    "reachable db \<Longrightarrow> reachable (snd (add_vectors fl record_id ids embeddings documents metadatas db))"
| reachable_delete:
    "reachable db \<Longrightarrow> reachable (delete_collection db record_id)"

text \<open>
  A stand-in arithmetic for the concrete evaluations: exact on finite values within the
  \<open>float32\<close> range, infinite beyond it, with the IEEE rules for infinities and NaN.
  Rounding and underflow are not part of it.
\<close>

definition FLT_MAX :: real where
  "FLT_MAX = 340282346638528859811704183484516925440"

definition ovf :: "real \<Rightarrow> pyfloat" where
  "ovf x = (if FLT_MAX < x then PInf else if x < - FLT_MAX then NInf else Fin x)"

definition is_neg :: "pyfloat \<Rightarrow> bool" where
  "is_neg x = py_lt x (Fin 0)"

fun sf_add :: "pyfloat \<Rightarrow> pyfloat \<Rightarrow> pyfloat" where
  "sf_add NaN y = NaN"
| "sf_add x NaN = NaN"
| "sf_add (Fin a) (Fin b) = ovf (a + b)"
| "sf_add PInf NInf = NaN"
| "sf_add NInf PInf = NaN"
| "sf_add (Fin a) y = y"
| "sf_add x y = x"

fun sf_neg :: "pyfloat \<Rightarrow> pyfloat" where
  "sf_neg (Fin a) = Fin (- a)"
| "sf_neg PInf = NInf"
| "sf_neg NInf = PInf"
| "sf_neg NaN = NaN"

fun sf_mul :: "pyfloat \<Rightarrow> pyfloat \<Rightarrow> pyfloat" where
  "sf_mul NaN y = NaN"
| "sf_mul x NaN = NaN"
| "sf_mul (Fin a) (Fin b) = ovf (a * b)"
| "sf_mul x y =
     (if x = Fin 0 \<or> y = Fin 0 then NaN
      else if is_neg x = is_neg y then PInf else NInf)"

fun sf_div :: "pyfloat \<Rightarrow> pyfloat \<Rightarrow> pyfloat" where
  "sf_div NaN y = NaN"
| "sf_div x NaN = NaN"
| "sf_div (Fin a) (Fin b) =
     (if b = 0 then (if a = 0 then NaN else if 0 < a then PInf else NInf) else ovf (a / b))"
| "sf_div (Fin a) y = Fin 0"
| "sf_div x (Fin b) = (if is_neg x = (b < 0) then PInf else NInf)"
| "sf_div x y = NaN"

fun sf_sqrt :: "pyfloat \<Rightarrow> pyfloat" where
  "sf_sqrt (Fin a) = (if a < 0 then NaN else Fin (sqrt a))"
| "sf_sqrt PInf = PInf"
| "sf_sqrt x = NaN"

definition simple_float :: float_lib where
  "simple_float =
     \<lparr>np_array = map (\<lambda>x. case x of Fin a \<Rightarrow> ovf a | PInf \<Rightarrow> PInf | NInf \<Rightarrow> NInf | NaN \<Rightarrow> NaN),
      np_dot = (\<lambda>a b. foldl sf_add (Fin 0) (map2 sf_mul a b)),
      np_norm = (\<lambda>a. sf_sqrt (foldl sf_add (Fin 0) (map (\<lambda>x. sf_mul x x) a))),
      np_mul = sf_mul,
      np_div = sf_div,
      fl_sub = (\<lambda>x y. case (x, y) of
                  (Fin a, Fin b) \<Rightarrow> Fin (a - b)
                | _ \<Rightarrow> sf_add x (sf_neg y))\<rparr>"

text \<open>
  A small store for the concrete evaluations: collection \<open>rec_1\<close> with the chunks \<open>c1\<close> and
  \<open>c2\<close> of the specification's example, and a second collection \<open>rec_2\<close>.
\<close>

definition example_db :: vector_db where
  "example_db =
     [\<lparr>row_id = ''c1'', row_record_id = ''rec_1'', row_embedding = [Fin 1, Fin 0],
       row_document = ''the quick brown fox'', row_metadata = []\<rparr>,
      \<lparr>row_id = ''c2'', row_record_id = ''rec_1'', row_embedding = [Fin 0, Fin 1],
       row_document = ''jumps over lazy dog'', row_metadata = []\<rparr>,
      \<lparr>row_id = ''d1'', row_record_id = ''rec_2'', row_embedding = [Fin 1, Fin 0],
       row_document = ''another record'', row_metadata = []\<rparr>]"

section \<open>utils/retrieval.py\<close>

definition RRF_K :: nat where "RRF_K = 60"

text \<open>
  A retrieved chunk.  The vector score is a float computed from a distance, and the final
  score may be a copy of it.  The keyword score (a quotient of match counts) and the sums
  of reciprocal ranks are finite; they are real numbers here, their rounding left aside.
\<close>

record RetrievedChunk =
  chunk_id :: string
  document :: string
  metadata :: metadata
  vector_score :: pyfloat
  keyword_score :: real
  rrf_score :: pyfloat
  match_highlights :: "string list"

text \<open>
  The regular-expression library is a parameter: the three fixed expressions of
  \<open>_extract_query_terms\<close>, the compilation of an escaped, word-bounded, case-insensitive
  pattern (\<open>None\<close> for \<open>re.error\<close>), and \<open>findall\<close> and \<open>search\<close> of a compiled pattern
  (\<open>search\<close> gives the span of the first match).
\<close>

record 'p re_lib =
  re_findall_quoted :: "string \<Rightarrow> string list"
  re_sub_quoted :: "string \<Rightarrow> string"
  re_findall_words :: "string \<Rightarrow> string list"
  re_compile_word :: "string \<Rightarrow> 'p option"
  re_findall :: "'p \<Rightarrow> string \<Rightarrow> string list"
  re_search :: "'p \<Rightarrow> string \<Rightarrow> (nat \<times> nat) option"

definition STOP_WORDS :: "string list" where
  "STOP_WORDS =
     [''a'', ''an'', ''the'', ''is'', ''are'', ''was'', ''were'', ''be'', ''been'', ''being'',
      ''have'', ''has'', ''had'', ''do'', ''does'', ''did'', ''will'', ''would'', ''shall'',
      ''should'', ''may'', ''might'', ''can'', ''could'', ''about'', ''above'', ''after'',
      ''again'', ''against'', ''all'', ''am'', ''and'', ''any'', ''at'', ''before'', ''below'',
      ''between'', ''both'', ''but'', ''by'', ''down'', ''during'', ''each'', ''few'', ''for'',
      ''from'', ''further'', ''get'', ''got'', ''had'', ''has'', ''have'', ''he'', ''her'',
      ''here'', ''hers'', ''herself'', ''him'', ''himself'', ''his'', ''how'', ''i'', ''if'',
      ''in'', ''into'', ''it'', ''its'', ''itself'', ''just'', ''let'', ''me'', ''more'',
      ''most'', ''my'', ''myself'', ''no'', ''nor'', ''not'', ''now'', ''of'', ''off'', ''on'',
      ''once'', ''only'', ''or'', ''other'', ''our'', ''ours'', ''ourselves'', ''out'', ''over'',
      ''own'', ''same'', ''she'', ''so'', ''some'', ''still'', ''such'', ''than'', ''that'',
      ''the'', ''their'', ''theirs'', ''them'', ''themselves'', ''then'', ''there'', ''these'',
      ''they'', ''this'', ''those'', ''through'', ''to'', ''too'', ''under'', ''until'', ''up'',
      ''us'', ''very'', ''was'', ''we'', ''were'', ''what'', ''when'', ''where'', ''which'',
      ''while'', ''who'', ''whom'', ''why'', ''will'', ''with'', ''you'', ''your'', ''yours'',
      ''yourself'', ''yourselves'']"

text \<open>\<open>str.lower()\<close> on the characters a keyword can contain.\<close>

definition py_lower_char :: "char \<Rightarrow> char" where
  "py_lower_char c =
     (let n = (of_char c :: nat) in if 65 \<le> n \<and> n \<le> 90 then char_of (n + 32) else c)"

definition py_lower :: "string \<Rightarrow> string" where
  "py_lower s = map py_lower_char s"

definition extract_query_terms :: "'p re_lib \<Rightarrow> string \<Rightarrow> string list \<times> string list" where
  "extract_query_terms re query =
     (let exact_phrases = re_findall_quoted re query;
          remaining = re_sub_quoted re query;
          words = re_findall_words re remaining;
          keywords = filter (\<lambda>w. py_lower w \<notin> set STOP_WORDS \<and> length w > 2) words
      in (exact_phrases, keywords))"

definition build_regex_patterns ::
  "'p re_lib \<Rightarrow> string list \<Rightarrow> string list \<Rightarrow> ('p \<times> real) list"
where
  "build_regex_patterns re exact_phrases keywords =
     List.map_filter (\<lambda>phrase. map_option (\<lambda>p. (p, 1)) (re_compile_word re phrase)) exact_phrases @
     List.map_filter (\<lambda>kw. map_option (\<lambda>p. (p, 1 / 2)) (re_compile_word re kw)) keywords"

text \<open>The horizontal ellipsis U+2026 that marks a cut snippet, as its UTF-8 bytes.\<close>

definition ellipsis :: string where
  "ellipsis = [char_of (226 :: nat), char_of (128 :: nat), char_of (166 :: nat)]"

text \<open>The loop of \<open>_score_chunk_regex\<close> over the patterns.\<close>

fun score_patterns ::
  "'p re_lib \<Rightarrow> string \<Rightarrow> ('p \<times> real) list \<Rightarrow> real \<Rightarrow> real \<Rightarrow> string list \<Rightarrow>
     real \<times> real \<times> string list"
where
  "score_patterns re text' [] score_total max_possible highlights = (score_total, max_possible, highlights)"
| "score_patterns re text' ((pat, weight) # rest) score_total max_possible highlights =
     (let max_possible' = max_possible + weight * 3;
          matches = re_findall re pat text';
          count = min (length matches) 3;
          score_total' = score_total + weight * real count;
          highlights' =
            (if matches \<noteq> [] then
               (case re_search re pat text' of
                  None \<Rightarrow> highlights
                | Some (m_start, m_end) \<Rightarrow>
                    (let start = max 0 (int m_start - 40);
                         stop = min (int (length text')) (int m_end + 40);
                         snippet = py_strip (py_slice text' start stop);
                         snippet1 = (if start > 0 then ellipsis @ snippet else snippet);
                         snippet2 = (if stop < int (length text') then snippet1 @ ellipsis
                                     else snippet1)
                     in highlights @ [snippet2]))
             else highlights)
      in score_patterns re text' rest score_total' max_possible' highlights')"

definition score_chunk_regex ::
  "'p re_lib \<Rightarrow> string \<Rightarrow> ('p \<times> real) list \<Rightarrow> real \<times> string list"
where
  "score_chunk_regex re text' patterns =
     (if patterns = [] then (0, [])
      else
        (case score_patterns re text' patterns 0 0 [] of
           (score_total, max_possible, highlights) \<Rightarrow>
             (let score = (if max_possible > 0 then score_total / max_possible else 0)
              in (min score 1, highlights))))"

text \<open>
  Python dictionaries keep insertion order: a dictionary is an association list with
  distinct keys, \<open>d[k] = v\<close> is \<open>AList.update\<close> (in place for a known key, at the end for a
  new one) and \<open>d.get(k, x)\<close> is \<open>dict_get_or\<close>.
\<close>

definition dict_get_or :: "('k \<times> 'v) list \<Rightarrow> 'k \<Rightarrow> 'v \<Rightarrow> 'v" where
  "dict_get_or d k x = (case map_of d k of None \<Rightarrow> x | Some v \<Rightarrow> v)"

text \<open>The two loops of \<open>_rrf_merge\<close> over \<open>enumerate(..., start=1)\<close>, and its result loop.\<close>

fun rrf_vector_loop ::
  "nat \<Rightarrow> nat \<Rightarrow> RetrievedChunk list \<Rightarrow> (string \<times> real) list \<Rightarrow> (string \<times> RetrievedChunk) list \<Rightarrow>
     (string \<times> real) list \<times> (string \<times> RetrievedChunk) list"
where
  "rrf_vector_loop k rank [] scores chunk_map = (scores, chunk_map)"
| "rrf_vector_loop k rank (chunk # rest) scores chunk_map =
     (let cid = chunk_id chunk;
          scores' = AList.update cid (dict_get_or scores cid 0 + 1 / real (k + rank)) scores;
          chunk_map' = AList.update cid chunk chunk_map
      in rrf_vector_loop k (rank + 1) rest scores' chunk_map')"

fun rrf_keyword_loop ::
  "nat \<Rightarrow> nat \<Rightarrow> RetrievedChunk list \<Rightarrow> (string \<times> real) list \<Rightarrow> (string \<times> RetrievedChunk) list \<Rightarrow>
     (string \<times> real) list \<times> (string \<times> RetrievedChunk) list"
where
  "rrf_keyword_loop k rank [] scores chunk_map = (scores, chunk_map)"
| "rrf_keyword_loop k rank (chunk # rest) scores chunk_map =
     (let cid = chunk_id chunk;
          scores' = AList.update cid (dict_get_or scores cid 0 + 1 / real (k + rank)) scores;
          chunk_map' =
            (case map_of chunk_map cid of
               Some c \<Rightarrow>
                 AList.update cid
                   (c\<lparr>keyword_score := keyword_score chunk,
                      match_highlights := match_highlights chunk\<rparr>) chunk_map
             | None \<Rightarrow> AList.update cid chunk chunk_map)
      in rrf_keyword_loop k (rank + 1) rest scores' chunk_map')"

fun rrf_assign ::
  "(string \<times> real) list \<Rightarrow> (string \<times> RetrievedChunk) list \<Rightarrow> py_error + RetrievedChunk list"
where
  "rrf_assign [] chunk_map = Inr []"
| "rrf_assign ((cid, rrf) # rest) chunk_map =
     (case map_of chunk_map cid of
        None \<Rightarrow> Inl KeyError
      | Some c \<Rightarrow>
          (case rrf_assign rest chunk_map of
             Inl e \<Rightarrow> Inl e
           | Inr result \<Rightarrow> Inr (c\<lparr>rrf_score := Fin rrf\<rparr> # result)))"

text \<open>
  \<open>list.sort(key=..., reverse=True)\<close> on the keyword scores, which are finite: a stable
  sort into descending order.
\<close>

definition sort_desc :: "('a \<Rightarrow> real) \<Rightarrow> 'a list \<Rightarrow> 'a list" where
  "sort_desc f xs = sort_key (\<lambda>x. - f x) xs"

definition rrf_merge ::
  "RetrievedChunk list \<Rightarrow> RetrievedChunk list \<Rightarrow> nat \<Rightarrow> py_error + RetrievedChunk list"
where
  "rrf_merge vector_ranked keyword_ranked k =
     (case rrf_vector_loop k 1 vector_ranked [] [] of
        (scores, chunk_map) \<Rightarrow>
          (case rrf_keyword_loop k 1 keyword_ranked scores chunk_map of
             (scores', chunk_map') \<Rightarrow>
               (case rrf_assign scores' chunk_map' of
                  Inl e \<Rightarrow> Inl e
                | Inr result \<Rightarrow> Inr (py_sort_key_reverse rrf_score result))))"

text \<open>
  \<open>hybrid_retrieve\<close>, in its three parts.  \<open>decrypted_chunks\<close> is a dictionary from chunk id
  to \<open>(plaintext, metadata)\<close>.
\<close>

definition effective_vtk :: "int \<Rightarrow> int option \<Rightarrow> int" where
  "effective_vtk top_k vector_top_k =
     (case vector_top_k of
        None \<Rightarrow> top_k * 3
      | Some v \<Rightarrow> if v = 0 then top_k * 3 else v)"

definition vector_ranked_of ::
  "float_lib \<Rightarrow> (string \<times> string \<times> metadata) list \<Rightarrow> vector_hit list \<Rightarrow> RetrievedChunk list"
where
  "vector_ranked_of fl decrypted_chunks vector_hits =
     map (\<lambda>hit.
            (let cid = hit_id hit;
                 similarity = py_max (Fin 0) (fl_sub fl (Fin 1) (hit_distance hit))
             in case map_of decrypted_chunks cid of
                  Some (text', meta) \<Rightarrow>
                    \<lparr>chunk_id = cid, document = text', metadata = meta,
                     vector_score = similarity, keyword_score = 0, rrf_score = Fin 0,
                     match_highlights = []\<rparr>
                | None \<Rightarrow>
                    \<lparr>chunk_id = cid, document = hit_document hit, metadata = hit_metadata hit,
                     vector_score = similarity, keyword_score = 0, rrf_score = Fin 0,
                     match_highlights = []\<rparr>))
         vector_hits"

definition keyword_scored_of ::
  "'p re_lib \<Rightarrow> ('p \<times> real) list \<Rightarrow> (string \<times> string \<times> metadata) list \<Rightarrow> RetrievedChunk list"
where
  "keyword_scored_of re patterns decrypted_chunks =
     List.map_filter
       (\<lambda>(cid, text', meta).
          (case score_chunk_regex re text' patterns of
             (score, highlights) \<Rightarrow>
               if score > 0 then
                 Some \<lparr>chunk_id = cid, document = text', metadata = meta,
                       vector_score = Fin 0, keyword_score = score, rrf_score = Fin 0,
                       match_highlights = highlights\<rparr>
               else None))
       decrypted_chunks"

definition keyword_ranked_of ::
  "'p re_lib \<Rightarrow> string \<Rightarrow> (string \<times> string \<times> metadata) list \<Rightarrow> int \<Rightarrow> RetrievedChunk list"
where
  "keyword_ranked_of re query decrypted_chunks vtk =
     (case extract_query_terms re query of
        (exact_phrases, keywords) \<Rightarrow>
          (let patterns = build_regex_patterns re exact_phrases keywords
           in if patterns \<noteq> [] then
                py_slice (sort_desc keyword_score (keyword_scored_of re patterns decrypted_chunks)) 0 vtk
              else []))"

definition hybrid_retrieve ::
  "float_lib \<Rightarrow> 'p re_lib \<Rightarrow> vector_db \<Rightarrow> string \<Rightarrow> string \<Rightarrow> pyfloat list \<Rightarrow>
     (string \<times> string \<times> metadata) list \<Rightarrow> int \<Rightarrow> int option \<Rightarrow> py_error + RetrievedChunk list"
where
  "hybrid_retrieve fl re db record_id query query_embedding decrypted_chunks top_k vector_top_k =
     (let vtk = effective_vtk top_k vector_top_k;
          vector_hits = query_vectors fl db record_id query_embedding vtk;
          vector_ranked = vector_ranked_of fl decrypted_chunks vector_hits;
          keyword_ranked = keyword_ranked_of re query decrypted_chunks vtk
      in if keyword_ranked = [] then
           Inr (py_slice (map (\<lambda>chunk. chunk\<lparr>rrf_score := vector_score chunk\<rparr>) vector_ranked)
                  0 top_k)
         else if vector_ranked = [] then
           Inr (py_slice (map (\<lambda>chunk. chunk\<lparr>rrf_score := Fin (keyword_score chunk)\<rparr>)
                            keyword_ranked)
                  0 top_k)
         else
           (case rrf_merge vector_ranked keyword_ranked RRF_K of
              Inl e \<Rightarrow> Inl e
            | Inr merged \<Rightarrow> Inr (py_slice merged 0 top_k)))"

text \<open>
  The specification's fused score: the 1-based rank of a chunk id in a ranked list, and
  the term \<open>1 / (60 + rank)\<close> it contributes (nothing when the id is not in the list).
\<close>

fun rank_from :: "nat \<Rightarrow> RetrievedChunk list \<Rightarrow> string \<Rightarrow> nat option" where
  "rank_from r [] cid = None"
| "rank_from r (c # cs) cid = (if chunk_id c = cid then Some r else rank_from (r + 1) cs cid)"

definition rrf_term :: "RetrievedChunk list \<Rightarrow> string \<Rightarrow> real" where
  "rrf_term ranked cid =
     (case rank_from 1 ranked cid of None \<Rightarrow> 0 | Some r \<Rightarrow> 1 / (60 + real r))"

text \<open>
  A stand-in regular-expression engine for the concrete evaluations: exact on queries
  without quotes and on texts of lower-case words separated by single spaces.
\<close>

fun scan_words :: "nat \<Rightarrow> string \<Rightarrow> string \<Rightarrow> (nat \<times> string) list" where
  "scan_words pos cur [] = (if cur = [] then [] else [(pos - length cur, cur)])"
| "scan_words pos cur (c # cs) =
     (if c = CHR '' '' then
        (if cur = [] then [] else [(pos - length cur, cur)]) @ scan_words (pos + 1) [] cs
      else scan_words (pos + 1) (cur @ [c]) cs)"

definition word_spans :: "string \<Rightarrow> string \<Rightarrow> (nat \<times> nat) list" where
  "word_spans p s =
     map (\<lambda>(start, w). (start, start + length w))
       (filter (\<lambda>(start, w). w = p) (scan_words 0 [] s))"

definition word_re :: "string re_lib" where
  "word_re =
     \<lparr>re_findall_quoted = (\<lambda>query. []),
      re_sub_quoted = (\<lambda>query. query),
      re_findall_words = (\<lambda>s. map snd (scan_words 0 [] s)),
      re_compile_word = Some,
      re_findall = (\<lambda>p s. map (\<lambda>sp. p) (word_spans p s)),
      re_search = (\<lambda>p s. case word_spans p s of [] \<Rightarrow> None | sp # rest \<Rightarrow> Some sp)\<rparr>"

text \<open>The decrypted chunks of the specification's example.\<close>

definition example_chunks :: "(string \<times> string \<times> metadata) list" where
  "example_chunks =
     [(''c1'', ''the quick brown fox'', []),
      (''c2'', ''jumps over lazy dog'', [])]"

text \<open>
  A store with an embedding large enough for the squares of its components to leave the
  \<open>float32\<close> range.
\<close>

definition overflow_db :: vector_db where
  "overflow_db =
     [\<lparr>row_id = ''c1'', row_record_id = ''rec_1'',
       row_embedding = [Fin 1000000000000000000000000000000, Fin 0],
       row_document = ''the quick brown fox'', row_metadata = []\<rparr>,
      \<lparr>row_id = ''c2'', row_record_id = ''rec_1'', row_embedding = [Fin 1, Fin 0],
       row_document = ''jumps over lazy dog'', row_metadata = []\<rparr>]"

section \<open>routers/documents.py\<close>

text \<open>
  A raised exception with its \<open>str()\<close>: \<open>Exc\<close> is an instance of \<open>Exception\<close>, \<open>BaseExc\<close> an
  instance of \<open>BaseException\<close> that is not one of \<open>Exception\<close> (\<open>asyncio.CancelledError\<close>,
  \<open>KeyboardInterrupt\<close>, \<open>SystemExit\<close>).  The clause \<open>except Exception\<close> catches the first
  kind only.
\<close>

datatype py_exc = Exc string | BaseExc string

text \<open>The tables \<open>documents\<close> (by primary key) and \<open>chunks\<close> of the main database.\<close>

record doc_row =
  doc_status :: string
  doc_error_message :: "string option"
  doc_page_count :: int
  doc_token_count :: int

record chunk_row =
  cr_id :: string
  cr_document_id :: string
  cr_encrypted_text :: string
  cr_token_count :: int
  cr_chunk_index :: int
  cr_page_number :: "int option"
  cr_section :: "string option"

record ingest_state =
  db_documents :: "string \<rightharpoonup> doc_row"
  db_chunks :: "chunk_row list"
  db_vectors :: vector_db

text \<open>
  The collaborators of the ingestion task.  Each call either returns or raises; the
  outcome is a parameter, so that a statement about every environment is a statement
  about a failure at any step.  \<open>env_uuid4_hex i\<close> is the \<open>i\<close>-th fresh identifier.
  \<open>env_float_lib\<close> is the arithmetic with which the vector store converts the embeddings.
\<close>

record ingest_env =
  env_decrypt_master_key :: "string \<Rightarrow> py_exc + string"
  env_extract_text :: "string \<Rightarrow> string \<Rightarrow> py_exc + (int \<times> string) list"
  env_count_tokens :: "string \<Rightarrow> py_exc + int"
  env_chunk_pages :: "(int \<times> string) list \<Rightarrow> py_exc + Chunk list"
  env_uuid4_hex :: "nat \<Rightarrow> string"
  env_encrypt_text :: "string \<Rightarrow> string \<Rightarrow> py_exc + string"
  env_get_embeddings :: "string list \<Rightarrow> py_exc + pyfloat list list"
  env_float_lib :: float_lib

definition set_document_error :: "ingest_state \<Rightarrow> string \<Rightarrow> string \<Rightarrow> ingest_state" where
  "set_document_error st document_id err =
     (case db_documents st document_id of
        None \<Rightarrow> st
      | Some row \<Rightarrow>
          st\<lparr>db_documents := (db_documents st)
                (document_id \<mapsto> row\<lparr>doc_status := ''error'', doc_error_message := Some err\<rparr>)\<rparr>)"

definition set_document_indexed :: "ingest_state \<Rightarrow> string \<Rightarrow> int \<Rightarrow> int \<Rightarrow> ingest_state" where
  "set_document_indexed st document_id page_count total_tokens =
     (case db_documents st document_id of
        None \<Rightarrow> st
      | Some row \<Rightarrow>
          st\<lparr>db_documents := (db_documents st)
                (document_id \<mapsto> row\<lparr>doc_status := ''indexed'', doc_page_count := page_count,
                                       doc_token_count := total_tokens\<rparr>)\<rparr>)"

fun py_join :: "string \<Rightarrow> string list \<Rightarrow> string" where
  "py_join sep [] = []"
| "py_join sep [x] = x"
| "py_join sep (x # y # ys) = x @ sep @ py_join sep (y # ys)"

definition str_of_error :: "py_error \<Rightarrow> string" where
  "str_of_error e =
     (case e of
        IndexError \<Rightarrow> ''list index out of range''
      | KeyError \<Rightarrow> ''key'')"

text \<open>
  Step 3: the loop that encrypts and inserts the chunks.  It runs inside one cursor
  context, so a failure rolls back every insert; the rows come back only on success.
\<close>

fun store_chunks ::
  "ingest_env \<Rightarrow> string \<Rightarrow> string \<Rightarrow> nat \<Rightarrow> Chunk list \<Rightarrow> py_exc + chunk_row list"
where
  "store_chunks env user_key document_id i [] = Inr []"
| "store_chunks env user_key document_id i (chunk # rest) =
     (let chunk_id = ''chunk_'' @ env_uuid4_hex env i in
      case env_encrypt_text env user_key (ck_text chunk) of
        Inl e \<Rightarrow> Inl e
      | Inr encrypted_chunk \<Rightarrow>
          (case store_chunks env user_key document_id (i + 1) rest of
             Inl e \<Rightarrow> Inl e
           | Inr rows \<Rightarrow>
               Inr (\<lparr>cr_id = chunk_id, cr_document_id = document_id,
                     cr_encrypted_text = encrypted_chunk,
                     cr_token_count = ck_token_count chunk,
                     cr_chunk_index = ck_index chunk,
                     cr_page_number = ck_page_number chunk,
                     cr_section = ck_section chunk\<rparr> # rows)))"

definition chunk_metadata :: "string \<Rightarrow> string \<Rightarrow> Chunk \<Rightarrow> metadata" where
  "chunk_metadata document_id filename chunk =
     [(''document_id'', JStr document_id),
      (''filename'', JStr filename),
      (''chunk_index'', JInt (ck_index chunk)),
      (''page_number'', JInt (case ck_page_number chunk of None \<Rightarrow> 0 | Some p \<Rightarrow> p)),
      (''section'', JStr (case ck_section chunk of None \<Rightarrow> [] | Some s \<Rightarrow> s))]"

text \<open>
  The body of the \<open>try\<close> block of \<open>_process_document\<close>.  The result is the exception that
  leaves the block (\<open>None\<close> when the block ends or returns) and the state at that moment.
\<close>

definition process_document_body ::
  "ingest_env \<Rightarrow> ingest_state \<Rightarrow> string \<Rightarrow> string \<Rightarrow> string \<Rightarrow> string \<Rightarrow> string \<Rightarrow> string \<Rightarrow>
     string \<Rightarrow> py_exc option \<times> ingest_state"
where
  "process_document_body env st document_id record_id user_id raw_bytes extension filename
       encrypted_master_key =
     (case env_decrypt_master_key env encrypted_master_key of
        Inl e \<Rightarrow> (Some e, st)
      | Inr user_key \<Rightarrow>
     (case env_extract_text env raw_bytes extension of
        Inl e \<Rightarrow> (Some e, st)
      | Inr pages \<Rightarrow>
     if pages = [] then
       (None, set_document_error st document_id ''No extractable text found in file'')
     else
     (let page_count = int (length pages);
          full_text = py_join [CHR 0x0A] (map snd pages)
      in
     (case env_count_tokens env full_text of
        Inl e \<Rightarrow> (Some e, st)
      | Inr total_tokens \<Rightarrow>
     (case env_chunk_pages env pages of
        Inl e \<Rightarrow> (Some e, st)
      | Inr page_chunks \<Rightarrow>
     if page_chunks = [] then
       (None, set_document_error st document_id ''Failed to create text chunks'')
     else
     (case store_chunks env user_key document_id 0 page_chunks of
        Inl e \<Rightarrow> (Some e, st)
      | Inr rows \<Rightarrow>
     (let st1 = st\<lparr>db_chunks := db_chunks st @ rows\<rparr>;
          chunk_ids = map cr_id rows;
          chunk_texts = map ck_text page_chunks
      in
     (case env_get_embeddings env chunk_texts of
        Inl e \<Rightarrow> (Some e, st1)
      | Inr embeddings \<Rightarrow>
     (let metadatas = map (chunk_metadata document_id filename) page_chunks in
      case add_vectors (env_float_lib env) record_id chunk_ids embeddings chunk_texts
             (Some metadatas) (db_vectors st1) of
        (Some err, vdb) \<Rightarrow> (Some (Exc (str_of_error err)), st1\<lparr>db_vectors := vdb\<rparr>)
      | (None, vdb) \<Rightarrow>
          (None, set_document_indexed (st1\<lparr>db_vectors := vdb\<rparr>) document_id page_count
                   total_tokens))))))))))"

text \<open>
  \<open>_process_document\<close>: the \<open>try\<close> block and its handler
  \<open>except Exception as e: _set_document_error(document_id, str(e)[:500])\<close>.
  The first component is the exception that leaves the task, if any.
\<close>

definition process_document ::
  "ingest_env \<Rightarrow> ingest_state \<Rightarrow> string \<Rightarrow> string \<Rightarrow> string \<Rightarrow> string \<Rightarrow> string \<Rightarrow> string \<Rightarrow>
     string \<Rightarrow> py_exc option \<times> ingest_state"
where
  "process_document env st document_id record_id user_id raw_bytes extension filename
       encrypted_master_key =
     (case process_document_body env st document_id record_id user_id raw_bytes extension
             filename encrypted_master_key of
        (None, st') \<Rightarrow> (None, st')
      | (Some (Exc msg), st') \<Rightarrow> (None, set_document_error st' document_id (py_slice msg 0 500))
      | (Some (BaseExc msg), st') \<Rightarrow> (Some (BaseExc msg), st'))"

text \<open>
  An environment for the concrete evaluations: one page, one chunk, and an embedding
  gateway whose outcome is the parameter.
\<close>

definition example_env :: "(string list \<Rightarrow> py_exc + pyfloat list list) \<Rightarrow> ingest_env" where
  "example_env gateway =
     \<lparr>env_decrypt_master_key = (\<lambda>k. Inr ''user-key''),
      env_extract_text = (\<lambda>raw ext. Inr [(1, ''the quick brown fox'')]),
      env_count_tokens = (\<lambda>s. Inr 4),
      env_chunk_pages =
        (\<lambda>pages. Inr [\<lparr>ck_text = ''the quick brown fox'', ck_token_count = 4,
                         ck_page_number = Some 1, ck_section = None, ck_index = 0\<rparr>]),
      env_uuid4_hex = (\<lambda>i. ''0001''),
      env_encrypt_text = (\<lambda>k s. Inr (''enc:'' @ s)),
      env_get_embeddings = gateway,
      env_float_lib = simple_float\<rparr>"

definition example_state :: ingest_state where
  "example_state =
     \<lparr>db_documents = [''doc_1'' \<mapsto> \<lparr>doc_status = ''processing'', doc_error_message = None,
                                   doc_page_count = 0, doc_token_count = 0\<rparr>],
      db_chunks = [],
      db_vectors = []\<rparr>"
section \<open>Properties of the chunker\<close>

subsection \<open>Slices\<close>

lemma py_slice_inner:
  assumes "0 \<le> lo" "lo \<le> hi" "hi \<le> int (length xs)"
  shows "py_slice xs lo hi = take (nat (hi - lo)) (drop (nat lo) xs)"
  using assms by (simp add: py_slice_def Let_def min_def)

lemma length_py_slice_inner:
  assumes "0 \<le> lo" "lo \<le> hi" "hi \<le> int (length xs)"
  shows "int (length (py_slice xs lo hi)) = hi - lo"
  using assms by (simp add: py_slice_inner)

lemma py_slice_append:
  assumes "0 \<le> lo" "lo \<le> mid" "mid \<le> hi" "hi \<le> int (length xs)"
  shows "py_slice xs lo hi = py_slice xs lo mid @ py_slice xs mid hi"
proof -
  have "take (nat (hi - lo)) (drop (nat lo) xs) =
        take (nat (mid - lo) + nat (hi - mid)) (drop (nat lo) xs)"
    using assms by (simp add: nat_add_distrib[symmetric])
  also have "\<dots> = take (nat (mid - lo)) (drop (nat lo) xs) @
                   take (nat (hi - mid)) (drop (nat (mid - lo)) (drop (nat lo) xs))"
    by (rule take_add)
  also have "drop (nat (mid - lo)) (drop (nat lo) xs) = drop (nat mid) xs"
    using assms by (simp add: nat_add_distrib[symmetric])
  finally show ?thesis
    using assms by (simp add: py_slice_inner)
qed

subsection \<open>The loop: termination, divergence, and the windows it visits\<close>

lemma chunk_loop_terminates:
  assumes "chunk_overlap < chunk_size"
  shows "\<exists>r. chunk_loop enc tokens chunk_size chunk_overlap pg sec start idx chunks = Some r"
proof (induction "nat (int (length tokens) - start)" arbitrary: start idx chunks rule: less_induct)
  case less
  show ?case
  proof (cases "start < int (length tokens)")
    case False
    then show ?thesis by (subst chunk_loop.simps) simp
  next
    case True
    define stop where "stop = min (start + chunk_size) (int (length tokens))"
    show ?thesis
    proof (cases "stop \<ge> int (length tokens)")
      case True
      with \<open>start < int (length tokens)\<close> show ?thesis
        by (subst chunk_loop.simps) (simp add: stop_def Let_def)
    next
      case False
      then have "stop = start + chunk_size" by (simp add: stop_def min_def split: if_splits)
      with assms True have "nat (int (length tokens) - (stop - chunk_overlap)) < nat (int (length tokens) - start)"
        by simp
      from less[OF this] have
        "\<And>idx chunks. \<exists>r. chunk_loop enc tokens chunk_size chunk_overlap pg sec (stop - chunk_overlap) idx chunks = Some r"
        by blast
      with True False show ?thesis
        by (subst chunk_loop.simps) (simp add: stop_def[symmetric] Let_def)
    qed
  qed
qed

lemma chunk_loop_diverges:
  assumes "chunk_size \<le> chunk_overlap" "chunk_size < int (length tokens)" "tokens \<noteq> []" "start \<le> 0"
  shows "chunk_loop enc tokens chunk_size chunk_overlap pg sec start idx chunks = None"
proof (rule ccontr)
  assume "chunk_loop enc tokens chunk_size chunk_overlap pg sec start idx chunks \<noteq> None"
  then obtain r where r: "chunk_loop enc tokens chunk_size chunk_overlap pg sec start idx chunks = Some r"
    by blast
  have "\<not> (chunk_size \<le> chunk_overlap \<and> chunk_size < int (length tokens) \<and> tokens \<noteq> [] \<and> start \<le> 0)"
  proof (rule chunk_loop.raw_induct
      [where P = "\<lambda>enc tokens cs ov pg sec start idx chunks r.
                    \<not> (cs \<le> ov \<and> cs < int (length tokens) \<and> tokens \<noteq> [] \<and> start \<le> 0)", OF _ r])
    fix loop :: "tokenizer \<Rightarrow> token list \<Rightarrow> int \<Rightarrow> int \<Rightarrow> int option \<Rightarrow> string option \<Rightarrow>
                   int \<Rightarrow> int \<Rightarrow> Chunk list \<Rightarrow> Chunk list option"
      and enc tokens chunk_size chunk_overlap pg sec start idx chunks r
    assume IH: "\<And>enc tokens chunk_size chunk_overlap pg sec start idx chunks r.
        loop enc tokens chunk_size chunk_overlap pg sec start idx chunks = Some r \<Longrightarrow>
        \<not> (chunk_size \<le> chunk_overlap \<and> chunk_size < int (length tokens) \<and> tokens \<noteq> [] \<and> start \<le> 0)"
    assume step: "(if start < int (length tokens)
      then let stop = min (start + chunk_size) (int (length tokens));
               chunk_tokens = py_slice tokens start stop;
               chunk_text_str = py_strip (tk_decode enc chunk_tokens);
               chunks' =
                 if chunk_text_str \<noteq> []
                 then chunks @
                      [\<lparr>ck_text = chunk_text_str,
                          ck_token_count = int (length chunk_tokens),
                          ck_page_number = pg,
                          ck_section = sec, ck_index = idx\<rparr>]
                 else chunks;
               idx' = if chunk_text_str \<noteq> [] then idx + 1 else idx
           in if int (length tokens) \<le> stop then Some chunks'
              else loop enc tokens chunk_size chunk_overlap
                    pg sec (stop - chunk_overlap) idx' chunks'
      else Some chunks) = Some r"
    show "\<not> (chunk_size \<le> chunk_overlap \<and> chunk_size < int (length tokens) \<and> tokens \<noteq> [] \<and> start \<le> 0)"
    proof
      assume a: "chunk_size \<le> chunk_overlap \<and> chunk_size < int (length tokens) \<and> tokens \<noteq> [] \<and> start \<le> 0"
      then have lt: "start < int (length tokens)" by (cases tokens) auto
      from a have st: "min (start + chunk_size) (int (length tokens)) = start + chunk_size" by simp
      from a have nst: "\<not> int (length tokens) \<le> start + chunk_size" by simp
      from a have "start + chunk_size - chunk_overlap \<le> 0" by simp
      with a IH have "\<And>i c. loop enc tokens chunk_size chunk_overlap pg sec (start + chunk_size - chunk_overlap) i c \<noteq> Some r"
        by blast
      with step lt st nst show False
        by (simp add: Let_def split: if_splits)
    qed
  qed
  with assms show False by blast
qed

lemma less_window_count_iff:
  assumes "chunk_overlap < chunk_size"
  shows "i < window_count chunk_size chunk_overlap n \<longleftrightarrow>
         int i * (chunk_size - chunk_overlap) < n - chunk_overlap"
proof -
  let ?d = "chunk_size - chunk_overlap"
  have d: "0 < real_of_int ?d" using assms by simp
  have "i < window_count chunk_size chunk_overlap n \<longleftrightarrow>
        int i < \<lceil>real_of_int (n - chunk_overlap) / real_of_int ?d\<rceil>"
    by (simp only: window_count_def zless_nat_eq_int_zless)
  also have "\<dots> \<longleftrightarrow> real_of_int (int i) < real_of_int (n - chunk_overlap) / real_of_int ?d"
    by (rule less_ceiling_iff)
  also have "\<dots> \<longleftrightarrow> real_of_int (int i) * real_of_int ?d < real_of_int (n - chunk_overlap)"
    using d by (simp add: pos_less_divide_eq)
  also have "\<dots> \<longleftrightarrow> int i * ?d < n - chunk_overlap"
    by (metis of_int_less_iff of_int_mult)
  finally show ?thesis .
qed

lemma chunk_loop_windows:
  assumes ov: "chunk_overlap < chunk_size"
    and i: "i < window_count chunk_size chunk_overlap (int (length tokens))"
    and i0: "0 \<le> chunk_overlap"
  shows "chunk_loop enc tokens chunk_size chunk_overlap pg sec
           (int i * (chunk_size - chunk_overlap)) idx chunks =
         Some (chunks @ window_chunks enc tokens pg sec idx
                 (map (spec_window chunk_size chunk_overlap (int (length tokens)))
                    [i..<window_count chunk_size chunk_overlap (int (length tokens))]))"
  using i
proof (induction "window_count chunk_size chunk_overlap (int (length tokens)) - i"
    arbitrary: i idx chunks rule: less_induct)
  case less
  let ?n = "int (length tokens)"
  let ?d = "chunk_size - chunk_overlap"
  let ?cnt = "window_count chunk_size chunk_overlap ?n"
  let ?start = "int i * ?d"
  let ?stop = "min (?start + chunk_size) ?n"
  let ?w = "spec_window chunk_size chunk_overlap ?n i"
  from less.prems ov have lt: "?start < ?n - chunk_overlap"
    by (simp add: less_window_count_iff)
  with i0 have start_lt: "?start < ?n" by simp
  have upt: "[i..<?cnt] = i # [Suc i..<?cnt]"
    using less.prems by (simp add: upt_conv_Cons)
  have suc_iff: "Suc i < ?cnt \<longleftrightarrow> ?start + chunk_size < ?n"
    using ov by (simp add: less_window_count_iff algebra_simps)
  have w: "?w = (?start, ?stop)" by (simp add: spec_window_def)
  show ?case
  proof (cases "Suc i < ?cnt")
    case False
    with less.prems have last: "[Suc i..<?cnt] = []" by simp
    from False suc_iff have stop_ge: "?n \<le> ?stop" by simp
    show ?thesis
      apply (subst chunk_loop.simps)
      using start_lt stop_ge
      apply (simp only: upt last list.map window_chunks.simps w fst_conv snd_conv window_text_def window_tokens_def Let_def if_True)
      apply simp
      done
  next
    case True
    with suc_iff have stop: "?stop = ?start + chunk_size" and nge: "\<not> ?n \<le> ?stop" by simp_all
    have "?start + chunk_size - chunk_overlap = int (Suc i) * ?d"
      by (simp add: algebra_simps)
    with stop have next_start: "?stop - chunk_overlap = int (Suc i) * ?d"
      by (simp only:)
    have m: "?cnt - Suc i < ?cnt - i" using less.prems by simp
    note IH = less.hyps[OF m True]
    show ?thesis
      apply (subst chunk_loop.simps)
      using start_lt nge
      apply (simp only: upt list.map window_chunks.simps w fst_conv snd_conv window_text_def window_tokens_def Let_def if_True if_False next_start IH)
      apply simp
      done
  qed
qed

lemma window_chunks_length_le:
  "length (window_chunks enc tokens pg sec idx ws) \<le> length ws"
  by (induction ws arbitrary: idx) (auto simp: le_SucI)

lemma window_chunks_no_blank:
  assumes "\<forall>w\<in>set ws. window_text enc tokens w \<noteq> []"
  shows "length (window_chunks enc tokens pg sec idx ws) = length ws \<and>
         (\<forall>j<length ws.
            ck_text (window_chunks enc tokens pg sec idx ws ! j) = window_text enc tokens (ws ! j) \<and>
            ck_index (window_chunks enc tokens pg sec idx ws ! j) = idx + int j)"
  using assms
proof (induction ws arbitrary: idx)
  case Nil
  then show ?case by simp
next
  case (Cons w ws)
  then have IH: "length (window_chunks enc tokens pg sec (idx + 1) ws) = length ws \<and>
         (\<forall>j<length ws.
            ck_text (window_chunks enc tokens pg sec (idx + 1) ws ! j) = window_text enc tokens (ws ! j) \<and>
            ck_index (window_chunks enc tokens pg sec (idx + 1) ws ! j) = idx + 1 + int j)"
    by simp
  from Cons.prems have nb: "window_text enc tokens w \<noteq> []" by simp
  show ?case
  proof (intro conjI allI impI)
    show "length (window_chunks enc tokens pg sec idx (w # ws)) = length (w # ws)"
      using nb IH by simp
  next
    fix j assume "j < length (w # ws)"
    then show "ck_text (window_chunks enc tokens pg sec idx (w # ws) ! j) = window_text enc tokens ((w # ws) ! j)"
      using nb IH by (cases j) simp_all
  next
    fix j assume "j < length (w # ws)"
    then show "ck_index (window_chunks enc tokens pg sec idx (w # ws) ! j) = idx + int j"
      using nb IH by (cases j) simp_all
  qed
qed

lemma chunk_text_eq_windows:
  assumes "0 \<le> chunk_overlap" "chunk_overlap < chunk_size" "py_strip text' \<noteq> []"
    and "chunk_size < int (length (tk_encode enc text'))"
  shows "chunk_text enc text' chunk_size chunk_overlap pg sec =
         Some (window_chunks enc (tk_encode enc text') pg sec 0
                 (spec_windows chunk_size chunk_overlap (int (length (tk_encode enc text')))))"
proof -
  let ?tokens = "tk_encode enc text'"
  have "0 < window_count chunk_size chunk_overlap (int (length ?tokens))"
    using assms by (simp add: less_window_count_iff)
  from chunk_loop_windows[OF assms(2) this assms(1), of enc pg sec 0 "[]"]
  have "chunk_loop enc ?tokens chunk_size chunk_overlap pg sec 0 0 [] =
        Some (window_chunks enc ?tokens pg sec 0
                 (spec_windows chunk_size chunk_overlap (int (length ?tokens))))"
    by (simp add: spec_windows_def)
  moreover have "text' \<noteq> []" using assms(3) by (auto simp: py_strip_def)
  ultimately show ?thesis
    using assms by (simp add: chunk_text_def Let_def)
qed

lemma spec_windows_overlap:
  assumes ov: "0 \<le> chunk_overlap" "chunk_overlap < chunk_size"
    and i: "Suc i < length (spec_windows chunk_size chunk_overlap (int (length tokens)))"
  defines "ws \<equiv> spec_windows chunk_size chunk_overlap (int (length tokens))"
  shows "snd (ws ! i) - fst (ws ! Suc i) = chunk_overlap"
    and "int (length (py_slice tokens (fst (ws ! Suc i)) (snd (ws ! i)))) = chunk_overlap"
    and "window_tokens tokens (ws ! i) =
           py_slice tokens (fst (ws ! i)) (fst (ws ! Suc i)) @
           py_slice tokens (fst (ws ! Suc i)) (snd (ws ! i))"
    and "window_tokens tokens (ws ! Suc i) =
           py_slice tokens (fst (ws ! Suc i)) (snd (ws ! i)) @
           py_slice tokens (snd (ws ! i)) (snd (ws ! Suc i))"
proof -
  let ?n = "int (length tokens)"
  let ?d = "chunk_size - chunk_overlap"
  from i have si: "Suc i < window_count chunk_size chunk_overlap ?n"
    by (simp add: spec_windows_def)
  then have ii: "i < window_count chunk_size chunk_overlap ?n" by simp
  from si ov have lt: "int i * ?d + chunk_size < ?n"
    by (simp add: less_window_count_iff algebra_simps)
  have wi: "ws ! i = (int i * ?d, int i * ?d + chunk_size)"
    using ii lt by (simp add: ws_def spec_windows_def spec_window_def)
  have wsi: "ws ! Suc i = (int i * ?d + ?d, min (int i * ?d + ?d + chunk_size) ?n)"
    using si by (simp add: ws_def spec_windows_def spec_window_def algebra_simps)
  have nonneg: "0 \<le> int i * ?d" using ov by simp
  show "snd (ws ! i) - fst (ws ! Suc i) = chunk_overlap"
    by (simp add: wi wsi)
  show "int (length (py_slice tokens (fst (ws ! Suc i)) (snd (ws ! i)))) = chunk_overlap"
    using ov lt nonneg by (simp add: wi wsi length_py_slice_inner)
  show "window_tokens tokens (ws ! i) =
           py_slice tokens (fst (ws ! i)) (fst (ws ! Suc i)) @
           py_slice tokens (fst (ws ! Suc i)) (snd (ws ! i))"
    unfolding window_tokens_def wi wsi fst_conv snd_conv
    using ov lt nonneg by (intro py_slice_append) simp_all
  show "window_tokens tokens (ws ! Suc i) =
           py_slice tokens (fst (ws ! Suc i)) (snd (ws ! i)) @
           py_slice tokens (snd (ws ! i)) (snd (ws ! Suc i))"
    unfolding window_tokens_def wi wsi fst_conv snd_conv
    using ov lt nonneg by (intro py_slice_append) simp_all
qed

lemma window_count_ceiling:
  assumes "chunk_overlap < chunk_size" "chunk_overlap \<le> n"
  shows "int (window_count chunk_size chunk_overlap n) =
         \<lceil>real_of_int (n - chunk_overlap) / real_of_int (chunk_size - chunk_overlap)\<rceil>"
proof -
  have "0 \<le> real_of_int (n - chunk_overlap) / real_of_int (chunk_size - chunk_overlap)"
    using assms by simp
  then have "0 \<le> \<lceil>real_of_int (n - chunk_overlap) / real_of_int (chunk_size - chunk_overlap)\<rceil>"
    by simp
  then show ?thesis by (simp add: window_count_def)
qed

subsection \<open>Claims about the chunker\<close>

lemma char_of_values:
  "char_of (32::nat) = CHR '' ''" "char_of (97::nat) = CHR ''a''" "char_of (98::nat) = CHR ''b''"
  "char_of (99::nat) = CHR ''c''" "char_of (100::nat) = CHR ''d''" "char_of (101::nat) = CHR ''e''"
  "char_of (102::nat) = CHR ''f''" "char_of (103::nat) = CHR ''g''"
  "char_of (104::nat) = CHR ''h''" "char_of (105::nat) = CHR ''i''"
  by code_simp+

lemmas chunk_eval = py_slice_def py_strip_def is_space_def py_isspace_cp_def Let_def char_of_values

text \<open>
  Claim C6, as the code has it.  A text of at most \<open>chunk_size\<close> tokens that is not empty
  and not whitespace-only yields exactly one chunk, whose text is the input with leading
  and trailing whitespace trimmed; an empty or whitespace-only text yields no chunk at all
  (the guard at the head of \<open>chunk_text\<close>), whatever its token count.
\<close>

theorem chunk_text_single_chunk:
  assumes "int (length (tk_encode enc text')) \<le> chunk_size"
  shows "chunk_text enc text' chunk_size chunk_overlap pg sec =
           (if py_strip text' = [] then Some []
            else Some [\<lparr>ck_text = py_strip text',
                         ck_token_count = int (length (tk_encode enc text')),
                         ck_page_number = pg, ck_section = sec, ck_index = 0\<rparr>])"
  using assms by (auto simp: chunk_text_def Let_def py_strip_def)

theorem chunk_text_single_chunk_witness:
  "int (length (tk_encode byte_tokenizer '' hi  '')) \<le> 500 \<and>
   chunk_text byte_tokenizer '' hi  '' 500 50 None None =
     Some [\<lparr>ck_text = ''hi'', ck_token_count = 5, ck_page_number = None,
             ck_section = None, ck_index = 0\<rparr>]"
  using chunk_text_single_chunk [of byte_tokenizer "'' hi  ''" 500 50 None None]
  by (simp add: byte_tokenizer_def chunk_eval)

theorem chunk_text_blank_counterexample:
  "int (length (tk_encode byte_tokenizer ''  '')) \<le> 500 \<and>
   chunk_text byte_tokenizer ''  '' 500 50 None None = Some []"
  by (simp add: chunk_text_def byte_tokenizer_def chunk_eval)

text \<open>
  Claim C5, as the code has it.  \<open>chunk_text\<close> takes \<open>chunk_size\<close> and \<open>chunk_overlap\<close> as
  plain arguments and checks neither.  With \<open>chunk_overlap < chunk_size\<close> it returns for every
  text and every tokenizer.  With \<open>chunk_overlap \<ge> chunk_size\<close> it never returns on a
  non-blank text of more than \<open>chunk_size\<close> tokens: the window start does not advance.
  With the defaults (500 and 50), which every caller in the repository uses, it returns.
\<close>

theorem chunk_text_termination:
  "(chunk_overlap < chunk_size \<longrightarrow>
      (\<exists>chunks. chunk_text enc text' chunk_size chunk_overlap pg sec = Some chunks)) \<and>
   (chunk_size \<le> chunk_overlap \<and> py_strip text' \<noteq> [] \<and> tk_encode enc text' \<noteq> [] \<and>
    chunk_size < int (length (tk_encode enc text')) \<longrightarrow>
      chunk_text enc text' chunk_size chunk_overlap pg sec = None) \<and>
   (\<exists>chunks. chunk_text enc text' DEFAULT_CHUNK_SIZE DEFAULT_CHUNK_OVERLAP pg sec = Some chunks)"
proof (intro conjI impI)
  have "DEFAULT_CHUNK_OVERLAP < DEFAULT_CHUNK_SIZE"
    by (simp add: DEFAULT_CHUNK_SIZE_def DEFAULT_CHUNK_OVERLAP_def)
  from chunk_loop_terminates[OF this]
  show "\<exists>chunks. chunk_text enc text' DEFAULT_CHUNK_SIZE DEFAULT_CHUNK_OVERLAP pg sec = Some chunks"
    by (simp add: chunk_text_def Let_def)
next
  assume "chunk_overlap < chunk_size"
  from chunk_loop_terminates[OF this]
  show "\<exists>chunks. chunk_text enc text' chunk_size chunk_overlap pg sec = Some chunks"
    by (simp add: chunk_text_def Let_def)
next
  assume a: "chunk_size \<le> chunk_overlap \<and> py_strip text' \<noteq> [] \<and> tk_encode enc text' \<noteq> [] \<and>
    chunk_size < int (length (tk_encode enc text'))"
  then have "text' \<noteq> []" by (auto simp: py_strip_def)
  moreover from a have "chunk_loop enc (tk_encode enc text') chunk_size chunk_overlap pg sec 0 0 [] = None"
    by (intro chunk_loop_diverges) simp_all
  ultimately show "chunk_text enc text' chunk_size chunk_overlap pg sec = None"
    using a by (simp add: chunk_text_def Let_def)
qed

theorem chunk_text_termination_witness:
  "((50::int) < 500 \<and> (\<exists>chunks. chunk_text byte_tokenizer ''ab'' 500 50 None None = Some chunks)) \<and>
   ((1::int) \<le> 1 \<and> py_strip ''ab'' \<noteq> [] \<and> tk_encode byte_tokenizer ''ab'' \<noteq> [] \<and>
    1 < int (length (tk_encode byte_tokenizer ''ab'')) \<and>
    chunk_text byte_tokenizer ''ab'' 1 1 None None = None)"
  using chunk_text_termination [where chunk_overlap = 50 and chunk_size = 500
          and enc = byte_tokenizer and text' = "''ab''" and pg = None and sec = None]
        chunk_text_termination [where chunk_overlap = 1 and chunk_size = 1
          and enc = byte_tokenizer and text' = "''ab''" and pg = None and sec = None]
  by (simp add: byte_tokenizer_def chunk_eval)

theorem chunk_text_overlap_counterexample:
  "\<not> (1::int) < 1 \<and> chunk_text byte_tokenizer ''ab'' 1 1 None None = None"
proof -
  have "chunk_loop byte_tokenizer (tk_encode byte_tokenizer ''ab'') 1 1 None None 0 0 [] = None"
    by (rule chunk_loop_diverges) (simp_all add: byte_tokenizer_def)
  then show ?thesis
    by (simp add: chunk_text_def byte_tokenizer_def chunk_eval)
qed

text \<open>
  Claim C3, as the code has it.  For a non-blank text of \<open>n > chunk_size\<close> tokens and
  \<open>0 \<le> overlap < chunk_size\<close>, the loop visits exactly
  \<open>ceil((n - overlap) / (chunk_size - overlap))\<close> token windows, and \<open>chunk_text\<close> returns one
  chunk for each window whose decoded, trimmed text is not empty, numbered in order.  So the
  chunk count is at most that number, and equals it when no window decodes to whitespace.
  Each window starts exactly \<open>overlap\<close> tokens before the end of the window before it: the
  two token windows share those \<open>overlap\<close> tokens and no others.
\<close>

theorem chunk_text_count:
  assumes "0 \<le> chunk_overlap" "chunk_overlap < chunk_size" "py_strip text' \<noteq> []"
    and "tokens = tk_encode enc text'"
    and "chunk_size < int (length tokens)"
    and "ws = spec_windows chunk_size chunk_overlap (int (length tokens))"
  shows "\<exists>chunks.
           chunk_text enc text' chunk_size chunk_overlap pg sec = Some chunks \<and>
           chunks = window_chunks enc tokens pg sec 0 ws \<and>
           int (length ws) =
             \<lceil>real_of_int (int (length tokens) - chunk_overlap) /
               real_of_int (chunk_size - chunk_overlap)\<rceil> \<and>
           length chunks \<le> length ws \<and>
           ((\<forall>w\<in>set ws. window_text enc tokens w \<noteq> []) \<longrightarrow>
              length chunks = length ws \<and>
              (\<forall>j<length ws. ck_text (chunks ! j) = window_text enc tokens (ws ! j) \<and>
                              ck_index (chunks ! j) = int j)) \<and>
           (\<forall>i. Suc i < length ws \<longrightarrow>
              snd (ws ! i) - fst (ws ! Suc i) = chunk_overlap \<and>
              int (length (py_slice tokens (fst (ws ! Suc i)) (snd (ws ! i)))) = chunk_overlap \<and>
              window_tokens tokens (ws ! i) =
                py_slice tokens (fst (ws ! i)) (fst (ws ! Suc i)) @
                py_slice tokens (fst (ws ! Suc i)) (snd (ws ! i)) \<and>
              window_tokens tokens (ws ! Suc i) =
                py_slice tokens (fst (ws ! Suc i)) (snd (ws ! i)) @
                py_slice tokens (snd (ws ! i)) (snd (ws ! Suc i)))"
proof -
  let ?chunks = "window_chunks enc tokens pg sec 0 ws"
  have 1: "chunk_text enc text' chunk_size chunk_overlap pg sec = Some ?chunks"
    using assms chunk_text_eq_windows[of chunk_overlap chunk_size text' enc pg sec] by simp
  have 2: "int (length ws) =
             \<lceil>real_of_int (int (length tokens) - chunk_overlap) /
               real_of_int (chunk_size - chunk_overlap)\<rceil>"
    using assms window_count_ceiling[of chunk_overlap chunk_size "int (length tokens)"]
    by (simp add: spec_windows_def)
  have 3: "length ?chunks \<le> length ws" by (rule window_chunks_length_le)
  have 4: "(\<forall>w\<in>set ws. window_text enc tokens w \<noteq> []) \<longrightarrow>
              length ?chunks = length ws \<and>
              (\<forall>j<length ws. ck_text (?chunks ! j) = window_text enc tokens (ws ! j) \<and>
                              ck_index (?chunks ! j) = int j)"
    using window_chunks_no_blank[of ws enc tokens pg sec 0] by simp
  have 5: "\<forall>i. Suc i < length ws \<longrightarrow>
              snd (ws ! i) - fst (ws ! Suc i) = chunk_overlap \<and>
              int (length (py_slice tokens (fst (ws ! Suc i)) (snd (ws ! i)))) = chunk_overlap \<and>
              window_tokens tokens (ws ! i) =
                py_slice tokens (fst (ws ! i)) (fst (ws ! Suc i)) @
                py_slice tokens (fst (ws ! Suc i)) (snd (ws ! i)) \<and>
              window_tokens tokens (ws ! Suc i) =
                py_slice tokens (fst (ws ! Suc i)) (snd (ws ! i)) @
                py_slice tokens (snd (ws ! i)) (snd (ws ! Suc i))"
    using spec_windows_overlap[OF assms(1,2), of _ tokens] assms(6) by blast
  from 1 2 3 4 5 show ?thesis by blast
qed

theorem chunk_text_count_witness:
  "(0::int) \<le> 1 \<and> (1::int) < 3 \<and> py_strip ''abcdefg'' \<noteq> [] \<and>
   3 < int (length (tk_encode byte_tokenizer ''abcdefg'')) \<and>
   spec_windows 3 1 (int (length (tk_encode byte_tokenizer ''abcdefg''))) = [(0, 3), (2, 5), (4, 7)] \<and>
   chunk_text byte_tokenizer ''abcdefg'' 3 1 None None =
     Some [\<lparr>ck_text = ''abc'', ck_token_count = 3, ck_page_number = None, ck_section = None, ck_index = 0\<rparr>,
           \<lparr>ck_text = ''cde'', ck_token_count = 3, ck_page_number = None, ck_section = None, ck_index = 1\<rparr>,
           \<lparr>ck_text = ''efg'', ck_token_count = 3, ck_page_number = None, ck_section = None, ck_index = 2\<rparr>]"
proof -
  have tk: "tk_encode byte_tokenizer ''abcdefg'' = [97, 98, 99, 100, 101, 102, 103]"
    by (simp add: byte_tokenizer_def)
  have ws: "spec_windows 3 1 (int (length (tk_encode byte_tokenizer ''abcdefg''))) = [(0, 3), (2, 5), (4, 7)]"
    by (simp add: tk spec_windows_def window_count_def spec_window_def upt_rec)
  have hyp: "py_strip ''abcdefg'' \<noteq> []" by (simp add: chunk_eval)
  from chunk_text_count [of 1 3 "''abcdefg''" "tk_encode byte_tokenizer ''abcdefg''" byte_tokenizer
       "spec_windows 3 1 (int (length (tk_encode byte_tokenizer ''abcdefg'')))" None None]
  have "chunk_text byte_tokenizer ''abcdefg'' 3 1 None None =
        Some (window_chunks byte_tokenizer (tk_encode byte_tokenizer ''abcdefg'') None None 0
               (spec_windows 3 1 (int (length (tk_encode byte_tokenizer ''abcdefg'')))))"
    using hyp by (simp add: tk)
  then show ?thesis
    unfolding ws
    by (simp add: tk window_text_def window_tokens_def byte_tokenizer_def chunk_eval)
qed

theorem chunk_text_count_counterexample:
  "(0::int) \<le> 1 \<and> (1::int) < 2 \<and> 2 < int (length (tk_encode byte_tokenizer ''a  b'')) \<and>
   \<lceil>real_of_int (int (length (tk_encode byte_tokenizer ''a  b'')) - 1) / real_of_int (2 - 1)\<rceil> = 3 \<and>
   chunk_text byte_tokenizer ''a  b'' 2 1 None None =
     Some [\<lparr>ck_text = ''a'', ck_token_count = 2, ck_page_number = None, ck_section = None, ck_index = 0\<rparr>,
           \<lparr>ck_text = ''b'', ck_token_count = 2, ck_page_number = None, ck_section = None, ck_index = 1\<rparr>]"
  apply (simp add: chunk_text_def byte_tokenizer_def chunk_eval)
  apply (subst chunk_loop.simps, simp add: chunk_eval)+
  done

section \<open>Properties of the vector store\<close>

lemma py_slice_prefix: "0 \<le> k \<Longrightarrow> py_slice xs 0 k = take (nat k) xs"
  by (simp add: py_slice_def Let_def min_def) 

lemma py_lt_imp_py_le: "py_lt a b \<Longrightarrow> py_le a b"
  by (cases a; cases b) simp_all

lemma not_py_lt_imp_py_le: "a \<noteq> NaN \<Longrightarrow> b \<noteq> NaN \<Longrightarrow> \<not> py_lt a b \<Longrightarrow> py_le b a"
  by (cases a; cases b) simp_all

lemma py_le_trans: "py_le a b \<Longrightarrow> py_le b c \<Longrightarrow> py_le a c"
  by (cases a; cases b; cases c) simp_all

lemma py_max_mono: "py_le a b \<Longrightarrow> py_le (py_max (Fin z) a) (py_max (Fin z) b)"
  by (cases a; cases b) (simp_all add: py_max_def)

lemma mset_py_insort_rev: "mset (py_insort_rev key x ys) = add_mset x (mset ys)"
  by (induction ys) simp_all

lemma mset_fold_py_insort_rev: "mset (fold (py_insort_rev key) xs acc) = mset xs + mset acc"
  by (induction xs arbitrary: acc) (simp_all add: mset_py_insort_rev)

lemma mset_py_sort_key: "mset (py_sort_key key xs) = mset xs"
  by (simp add: py_sort_key_def mset_fold_py_insort_rev)

lemma set_py_sort_key: "set (py_sort_key key xs) = set xs"
  using mset_py_sort_key[of key xs] by (rule mset_eq_setD)

lemma distinct_map_py_sort_key: "distinct (map g (py_sort_key key xs)) = distinct (map g xs)"
proof -
  have "mset (map g (py_sort_key key xs)) = mset (map g xs)"
    by (simp only: mset_map mset_py_sort_key)
  then show ?thesis by (rule mset_eq_imp_distinct_iff)
qed

lemma mset_py_sort_key_reverse: "mset (py_sort_key_reverse key xs) = mset xs"
  by (simp add: py_sort_key_reverse_def mset_py_sort_key)

lemma set_py_sort_key_reverse: "set (py_sort_key_reverse key xs) = set xs"
  using mset_py_sort_key_reverse[of key xs] by (rule mset_eq_setD)

lemma distinct_map_py_sort_key_reverse:
  "distinct (map g (py_sort_key_reverse key xs)) = distinct (map g xs)"
proof -
  have "mset (map g (py_sort_key_reverse key xs)) = mset (map g xs)"
    by (simp only: mset_map mset_py_sort_key_reverse)
  then show ?thesis by (rule mset_eq_imp_distinct_iff)
qed

lemma set_py_insort_rev: "set (py_insort_rev key x ys) = insert x (set ys)"
  using mset_py_insort_rev[of key x ys] by (metis set_mset_add_mset_insert set_mset_mset)

lemma sorted_py_insort_rev:
  assumes "sorted_wrt (\<lambda>a b. py_le (key b) (key a)) ys" "key x \<noteq> NaN" "\<forall>y\<in>set ys. key y \<noteq> NaN"
  shows "sorted_wrt (\<lambda>a b. py_le (key b) (key a)) (py_insort_rev key x ys)"
  using assms
proof (induction ys)
  case Nil
  then show ?case by simp
next
  case (Cons y ys)
  show ?case
  proof (cases "py_lt (key x) (key y)")
    case True
    from Cons have IH: "sorted_wrt (\<lambda>a b. py_le (key b) (key a)) (py_insort_rev key x ys)"
      by simp
    have "py_le (key z) (key y)" if "z \<in> set (py_insort_rev key x ys)" for z
    proof -
      from that have "z = x \<or> z \<in> set ys" by (simp add: set_py_insort_rev)
      then show ?thesis
      proof
        assume "z = x"
        with True show ?thesis by (simp add: py_lt_imp_py_le)
      next
        assume "z \<in> set ys"
        with Cons.prems(1) show ?thesis by simp
      qed
    qed
    with True IH show ?thesis by simp
  next
    case False
    from Cons.prems have ny: "key y \<noteq> NaN" by simp
    from False have yx: "py_le (key y) (key x)"
      by (intro not_py_lt_imp_py_le Cons.prems(2) ny)
    have "py_le (key z) (key x)" if "z \<in> set ys" for z
    proof -
      from that Cons.prems(1) have "py_le (key z) (key y)" by simp
      then show ?thesis using yx by (rule py_le_trans)
    qed
    with False yx Cons.prems(1) show ?thesis by simp
  qed
qed

lemma sorted_fold_py_insort_rev:
  assumes "sorted_wrt (\<lambda>a b. py_le (key b) (key a)) acc"
    "\<forall>x\<in>set xs. key x \<noteq> NaN" "\<forall>y\<in>set acc. key y \<noteq> NaN"
  shows "sorted_wrt (\<lambda>a b. py_le (key b) (key a)) (fold (py_insort_rev key) xs acc)"
  using assms
proof (induction xs arbitrary: acc)
  case Nil
  then show ?case by simp
next
  case (Cons x xs)
  have "sorted_wrt (\<lambda>a b. py_le (key b) (key a)) (py_insort_rev key x acc)"
    using Cons.prems by (intro sorted_py_insort_rev) simp_all
  moreover have "\<forall>y\<in>set (py_insort_rev key x acc). key y \<noteq> NaN"
    using Cons.prems by (simp add: set_py_insort_rev)
  moreover have "\<forall>x\<in>set xs. key x \<noteq> NaN" using Cons.prems by simp
  ultimately show ?case using Cons.IH by simp
qed

lemma sorted_py_sort_key:
  assumes "\<forall>x\<in>set xs. key x \<noteq> NaN"
  shows "sorted_wrt (\<lambda>a b. py_le (key a) (key b)) (py_sort_key key xs)"
proof -
  have "sorted_wrt (\<lambda>a b. py_le (key b) (key a)) (fold (py_insort_rev key) xs [])"
    using assms by (intro sorted_fold_py_insort_rev) simp_all
  then show ?thesis by (simp add: py_sort_key_def sorted_wrt_rev)
qed

text \<open>On keys without NaN or infinities \<open>py_sort_key\<close> is the stable sort.\<close>

lemma filter_py_insort_rev:
  "filter (\<lambda>z. key z = c) (py_insort_rev key x ys) = filter (\<lambda>z. key z = c) (x # ys)"
proof (induction ys)
  case Nil
  then show ?case by simp
next
  case (Cons y ys)
  have irr: "\<not> py_lt a a" for a by (cases a) simp_all
  show ?case
  proof (cases "py_lt (key x) (key y)")
    case True
    then have "key x \<noteq> key y" using irr by metis
    with True Cons show ?thesis by auto
  next
    case False
    then show ?thesis by simp
  qed
qed

lemma filter_fold_py_insort_rev:
  "filter (\<lambda>z. key z = c) (fold (py_insort_rev key) xs acc) =
     rev (filter (\<lambda>z. key z = c) xs) @ filter (\<lambda>z. key z = c) acc"
  by (induction xs arbitrary: acc) (simp_all add: filter_py_insort_rev)

lemma filter_py_sort_key:
  "filter (\<lambda>z. key z = c) (py_sort_key key xs) = filter (\<lambda>z. key z = c) xs"
  by (simp add: py_sort_key_def filter_fold_py_insort_rev rev_filter[symmetric])

lemma py_sort_key_Fin: "py_sort_key (\<lambda>x. Fin (f x)) xs = sort_key f xs"
proof (rule properties_for_sort_key[symmetric])
  show "mset (py_sort_key (\<lambda>x. Fin (f x)) xs) = mset xs" by (rule mset_py_sort_key)
  show "filter (\<lambda>x. f k = f x) (py_sort_key (\<lambda>x. Fin (f x)) xs) = filter (\<lambda>x. f k = f x) xs" for k
    using filter_py_sort_key[of "\<lambda>x. Fin (f x)" "Fin (f k)" xs] by (simp add: eq_commute)
  have "sorted_wrt (\<lambda>a b. py_le (Fin (f a)) (Fin (f b))) (py_sort_key (\<lambda>x. Fin (f x)) xs)"
    by (rule sorted_py_sort_key) simp
  then show "sorted (map f (py_sort_key (\<lambda>x. Fin (f x)) xs))"
    by (simp add: sorted_map)
qed

lemma query_vectors_eq:
  "query_vectors fl db rid q k =
     map snd (py_slice (py_sort_key fst (map (scored_row fl (np_array fl q))
            (filter (\<lambda>r. row_record_id r = rid) db))) 0 k)"
  by (simp add: query_vectors_def Let_def py_slice_def py_sort_key_def)

lemma set_py_slice: "set (py_slice xs lo hi) \<subseteq> set xs"
  unfolding py_slice_def Let_def
  by (meson set_take_subset set_drop_subset subset_trans)

lemma map_py_slice: "map f (py_slice xs lo hi) = py_slice (map f xs) lo hi"
  by (simp add: py_slice_def Let_def take_map drop_map)

lemma hit_id_scored_row: "hit_id (snd (scored_row fl q r)) = row_id r"
  by (simp add: scored_row_def Let_def)

lemma query_vectors_hits_from_rows:
  assumes "h \<in> set (query_vectors fl db rid q k)"
  shows "\<exists>r\<in>set db. row_record_id r = rid \<and> h = snd (scored_row fl (np_array fl q) r)"
proof -
  from assms have "h \<in> snd ` set (py_slice (py_sort_key fst (map (scored_row fl (np_array fl q))
            (filter (\<lambda>r. row_record_id r = rid) db))) 0 k)"
    by (simp add: query_vectors_eq)
  then have "h \<in> snd ` set (py_sort_key fst (map (scored_row fl (np_array fl q))
            (filter (\<lambda>r. row_record_id r = rid) db)))"
    using set_py_slice by fastforce
  then show ?thesis by (auto simp: set_py_sort_key)
qed

lemma distinct_insert_or_replace:
  assumes "distinct (map row_id db)"
  shows "distinct (map row_id (insert_or_replace r db))"
  using assms by (auto simp: insert_or_replace_def distinct_map_filter)

lemma distinct_add_vectors_loop:
  assumes "distinct (map row_id db)"
  shows "distinct (map row_id (snd (add_vectors_loop fl rid i ids embs docs metas db)))"
  using assms
  by (induction fl rid i ids embs docs metas db rule: add_vectors_loop.induct)
     (simp_all add: distinct_insert_or_replace)

lemma distinct_add_vectors:
  assumes "distinct (map row_id db)"
  shows "distinct (map row_id (snd (add_vectors fl rid ids embs docs metas db)))"
  using assms by (simp add: add_vectors_def Let_def distinct_add_vectors_loop)

lemma distinct_delete_collection:
  assumes "distinct (map row_id db)"
  shows "distinct (map row_id (delete_collection db rid))"
  using assms by (simp add: delete_collection_def distinct_map_filter)

lemma reachable_distinct: "reachable db \<Longrightarrow> distinct (map row_id db)"
  by (induction rule: reachable.induct)
     (simp_all add: distinct_add_vectors distinct_delete_collection)

lemma add_vectors_single:
  "add_vectors fl rid [vid] (e # es) docs metas db =
     (None, insert_or_replace
        \<lparr>row_id = vid, row_record_id = rid, row_embedding = np_array fl e,
         row_document = (if 0 < length docs then docs ! 0 else []),
         row_metadata = (case metas of None \<Rightarrow> [] | Some [] \<Rightarrow> [] | Some (m # ms) \<Rightarrow> m)\<rparr> db)"
  by (simp add: add_vectors_def Let_def split: option.splits list.splits)

lemma distinct_key_unique:
  assumes "distinct (map f xs)" "x \<in> set xs" "y \<in> set xs" "f x = f y"
  shows "x = y"
  using assms by (meson distinct_map inj_onD)

lemma length_filter_drop_key:
  assumes "distinct (map f xs)" "r \<in> set xs" "P r"
  shows "int (length (filter (\<lambda>x. P x \<and> f x \<noteq> f r) xs)) = int (length (filter P xs)) - 1"
  using assms
proof (induction xs)
  case Nil
  then show ?case by simp
next
  case (Cons x xs)
  show ?case
  proof (cases "f x = f r")
    case True
    with Cons.prems have xr: "x = r"
      by (intro distinct_key_unique[of f "x # xs"]) simp_all
    from Cons.prems True have "f r \<notin> f ` set xs" by simp
    then have "\<forall>y\<in>set xs. f y \<noteq> f r" by (metis imageI)
    then have "filter (\<lambda>x. P x \<and> f x \<noteq> f r) xs = filter P xs"
      by (intro filter_cong) auto
    with True xr Cons.prems show ?thesis by simp
  next
    case False
    with Cons.prems have "r \<in> set xs" by auto
    with Cons have "int (length (filter (\<lambda>x. P x \<and> f x \<noteq> f r) xs)) = int (length (filter P xs)) - 1"
      by simp
    with False show ?thesis by simp
  qed
qed

lemmas sf_eval = simple_float_def ovf_def FLT_MAX_def is_neg_def

lemmas vec_eval = cosine_similarity_def py_slice_def Let_def sf_eval

lemma example_array: "np_array simple_float [Fin 1, Fin 0] = [Fin 1, Fin 0]"
  by (simp add: sf_eval)

lemma example_array': "np_array simple_float [Fin 0, Fin 1] = [Fin 0, Fin 1]"
  by (simp add: sf_eval)

lemma example_cos1: "cosine_similarity simple_float [Fin 1, Fin 0] [Fin 1, Fin 0] = Fin 1"
  by (simp add: vec_eval)

lemma example_cos2: "cosine_similarity simple_float [Fin 1, Fin 0] [Fin 0, Fin 1] = Fin 0"
  by (simp add: vec_eval)

lemma example_sub: "fl_sub simple_float (Fin x) (Fin y) = Fin (x - y)"
  by (simp add: simple_float_def)


lemma sf_sub_antitone:
  "py_le x y \<Longrightarrow> py_le (fl_sub simple_float (Fin 1) y) (fl_sub simple_float (Fin 1) x)"
  by (cases x; cases y) (simp_all add: simple_float_def)

lemma reachable_example_db: "reachable example_db"
proof -
  let ?db1 = "snd (add_vectors simple_float ''rec_1'' [''c1'', ''c2''] [[Fin 1, Fin 0], [Fin 0, Fin 1]]
                 [''the quick brown fox'', ''jumps over lazy dog''] None [])"
  have "reachable ?db1" by (intro reachable_add reachable_init)
  then have "reachable (snd (add_vectors simple_float ''rec_2'' [''d1''] [[Fin 1, Fin 0]]
                               [''another record''] None ?db1))"
    by (rule reachable_add)
  moreover have "snd (add_vectors simple_float ''rec_2'' [''d1''] [[Fin 1, Fin 0]]
                        [''another record''] None ?db1) = example_db"
    by (simp add: add_vectors_def insert_or_replace_def example_db_def example_array example_array')
  ultimately show ?thesis by simp
qed



lemma hit_distance_scored_row:
  "hit_distance (snd (scored_row fl q r)) = fl_sub fl (Fin 1) (cosine_similarity fl q (row_embedding r))"
  by (simp add: scored_row_def Let_def)

lemma example_query:
  "query_vectors simple_float example_db ''rec_1'' [Fin 1, Fin 0] k =
     py_slice
       [\<lparr>hit_id = ''c1'', hit_distance = Fin 0, hit_document = ''the quick brown fox'', hit_metadata = []\<rparr>,
        \<lparr>hit_id = ''c2'', hit_distance = Fin 1, hit_document = ''jumps over lazy dog'', hit_metadata = []\<rparr>]
       0 k"
proof -
  have "py_sort_key fst (map (scored_row simple_float [Fin 1, Fin 0])
          (filter (\<lambda>r. row_record_id r = ''rec_1'') example_db)) =
     [(Fin 0, \<lparr>hit_id = ''c1'', hit_distance = Fin 0, hit_document = ''the quick brown fox'', hit_metadata = []\<rparr>),
      (Fin 1, \<lparr>hit_id = ''c2'', hit_distance = Fin 1, hit_document = ''jumps over lazy dog'', hit_metadata = []\<rparr>)]"
    by (simp add: example_db_def scored_row_def example_cos1 example_cos2 example_sub py_sort_key_def Let_def)
  then show ?thesis
    by (simp add: query_vectors_eq example_array map_py_slice)
qed

subsection \<open>Claims about the vector store\<close>




text \<open>
  Claim C2.  In every state of the store, \<open>query_vectors\<close> for a collection returns only
  ids whose stored row belongs to that collection, and \<open>delete_collection\<close> removes exactly
  the rows of that collection: none of them remains, the store is the rest plus the
  removed rows, and for every other collection the rows, the query results and the count
  are unchanged.
\<close>

theorem collection_isolation:
  assumes "reachable db"
  shows "(\<forall>h\<in>set (query_vectors fl db collection_id query_embedding top_k).
            \<exists>r\<in>set db. row_id r = hit_id h \<and> row_record_id r = collection_id) \<and>
         (\<forall>h\<in>set (query_vectors fl db collection_id query_embedding top_k).
            \<forall>r\<in>set db. row_id r = hit_id h \<longrightarrow> row_record_id r = collection_id) \<and>
         filter (\<lambda>r. row_record_id r = collection_id) (delete_collection db collection_id) = [] \<and>
         mset db = mset (delete_collection db collection_id) +
                   mset (filter (\<lambda>r. row_record_id r = collection_id) db) \<and>
         (\<forall>other. other \<noteq> collection_id \<longrightarrow>
            filter (\<lambda>r. row_record_id r = other) (delete_collection db collection_id) =
              filter (\<lambda>r. row_record_id r = other) db \<and>
            query_vectors fl (delete_collection db collection_id) other query_embedding top_k =
              query_vectors fl db other query_embedding top_k \<and>
            collection_count (delete_collection db collection_id) other = collection_count db other)"
proof -
  let ?hits = "query_vectors fl db collection_id query_embedding top_k"
  have d: "distinct (map row_id db)" using assms by (rule reachable_distinct)
  have a: "\<exists>r\<in>set db. row_id r = hit_id h \<and> row_record_id r = collection_id" if "h \<in> set ?hits" for h
    using query_vectors_hits_from_rows[OF that] by (auto simp: hit_id_scored_row)
  have b: "row_record_id r = collection_id" if "h \<in> set ?hits" "r \<in> set db" "row_id r = hit_id h" for h r
  proof -
    from a[OF that(1)] obtain r' where r': "r' \<in> set db" "row_id r' = hit_id h" "row_record_id r' = collection_id"
      by blast
    with that have "r = r'" by (intro distinct_key_unique[OF d]) simp_all
    with r' show ?thesis by simp
  qed
  have c: "filter (\<lambda>r. row_record_id r = collection_id) (delete_collection db collection_id) = []"
    by (simp add: delete_collection_def)
  have e: "mset db = mset (delete_collection db collection_id) +
                   mset (filter (\<lambda>r. row_record_id r = collection_id) db)"
    by (simp add: delete_collection_def)
  have f: "filter (\<lambda>r. row_record_id r = other) (delete_collection db collection_id) =
              filter (\<lambda>r. row_record_id r = other) db" if "other \<noteq> collection_id" for other
    using that by (auto simp: delete_collection_def intro: filter_cong)
  have g: "query_vectors fl (delete_collection db collection_id) other query_embedding top_k =
              query_vectors fl db other query_embedding top_k" if "other \<noteq> collection_id" for other
    using f[OF that] by (simp add: query_vectors_def)
  have h: "collection_count (delete_collection db collection_id) other = collection_count db other"
    if "other \<noteq> collection_id" for other
    using f[OF that] by (simp add: collection_count_def)
  from a b c e f g h show ?thesis by blast
qed

theorem collection_isolation_witness:
  "reachable example_db \<and>
   collection_count example_db ''rec_1'' = 2 \<and> collection_count example_db ''rec_2'' = 1 \<and>
   query_vectors simple_float example_db ''rec_1'' [Fin 1, Fin 0] 5 =
     [\<lparr>hit_id = ''c1'', hit_distance = Fin 0, hit_document = ''the quick brown fox'', hit_metadata = []\<rparr>,
      \<lparr>hit_id = ''c2'', hit_distance = Fin 1, hit_document = ''jumps over lazy dog'', hit_metadata = []\<rparr>] \<and>
   delete_collection example_db ''rec_1'' =
     [\<lparr>row_id = ''d1'', row_record_id = ''rec_2'', row_embedding = [Fin 1, Fin 0],
       row_document = ''another record'', row_metadata = []\<rparr>] \<and>
   query_vectors simple_float (delete_collection example_db ''rec_1'') ''rec_2'' [Fin 1, Fin 0] 5 =
     query_vectors simple_float example_db ''rec_2'' [Fin 1, Fin 0] 5"
proof -
  have r: "reachable example_db" by (rule reachable_example_db)
  have ne: "''rec_2'' \<noteq> ''rec_1''" by simp
  note iso = collection_isolation [OF r, of simple_float "''rec_1''" "[Fin 1, Fin 0]" 5]
  note others = iso [THEN conjunct2, THEN conjunct2, THEN conjunct2, THEN conjunct2, rule_format, OF ne]
  have 1: "query_vectors simple_float (delete_collection example_db ''rec_1'') ''rec_2'' [Fin 1, Fin 0] 5 =
           query_vectors simple_float example_db ''rec_2'' [Fin 1, Fin 0] 5"
    by (rule others [THEN conjunct2, THEN conjunct1])
  have 2: "query_vectors simple_float example_db ''rec_1'' [Fin 1, Fin 0] 5 =
     [\<lparr>hit_id = ''c1'', hit_distance = Fin 0, hit_document = ''the quick brown fox'', hit_metadata = []\<rparr>,
      \<lparr>hit_id = ''c2'', hit_distance = Fin 1, hit_document = ''jumps over lazy dog'', hit_metadata = []\<rparr>]"
    by (simp add: example_query py_slice_def)
  have 3: "delete_collection example_db ''rec_1'' =
     [\<lparr>row_id = ''d1'', row_record_id = ''rec_2'', row_embedding = [Fin 1, Fin 0],
       row_document = ''another record'', row_metadata = []\<rparr>]"
    by (simp add: delete_collection_def example_db_def)
  have 4: "collection_count example_db ''rec_1'' = 2"
    by (simp add: collection_count_def example_db_def)
  have 5: "collection_count example_db ''rec_2'' = 1"
    by (simp add: collection_count_def example_db_def)
  show ?thesis
    by (intro conjI) (rule r, rule 4, rule 5, rule 2, rule 3, rule 1)
qed

text \<open>
  Claim C9.  Ids are unique across the whole store: no reachable state holds two rows with
  the same id.  Adding a single id that currently belongs to another collection replaces
  that row: the call succeeds, the id then belongs to the new collection only, queries for
  the old collection no longer return it, the old collection's count drops by one and the
  new collection's count grows by one.
\<close>

theorem vector_ids_unique:
  assumes "reachable db"
  shows "distinct (map row_id db) \<and>
         (\<forall>r\<in>set db. \<forall>b. row_record_id r \<noteq> b \<longrightarrow>
            fst (add_vectors fl b [row_id r] (e # es) docs metas db) = None \<and>
            reachable (snd (add_vectors fl b [row_id r] (e # es) docs metas db)) \<and>
            distinct (map row_id (snd (add_vectors fl b [row_id r] (e # es) docs metas db))) \<and>
            (\<exists>x\<in>set (snd (add_vectors fl b [row_id r] (e # es) docs metas db)).
               row_id x = row_id r \<and> row_record_id x = b \<and> row_embedding x = np_array fl e) \<and>
            (\<forall>x\<in>set (snd (add_vectors fl b [row_id r] (e # es) docs metas db)).
               row_id x = row_id r \<longrightarrow> row_record_id x = b) \<and>
            (\<forall>fl' q k.
               row_id r \<notin> hit_id ` set (query_vectors fl'
                 (snd (add_vectors fl b [row_id r] (e # es) docs metas db)) (row_record_id r) q k)) \<and>
            collection_count (snd (add_vectors fl b [row_id r] (e # es) docs metas db)) (row_record_id r) =
              collection_count db (row_record_id r) - 1 \<and>
            collection_count (snd (add_vectors fl b [row_id r] (e # es) docs metas db)) b =
              collection_count db b + 1)"
proof (intro conjI ballI allI impI)
  show d: "distinct (map row_id db)" using assms by (rule reachable_distinct)
  fix r b
  assume r: "r \<in> set db" and ne: "row_record_id r \<noteq> b"
  let ?res = "add_vectors fl b [row_id r] (e # es) docs metas db"
  let ?db' = "snd ?res"
  obtain new where new: "?res = (None, insert_or_replace new db)"
    and new_id: "row_id new = row_id r" and new_rec: "row_record_id new = b"
    and new_emb: "row_embedding new = np_array fl e"
    using add_vectors_single[of fl b "row_id r" e es docs metas db] by simp
  have db': "?db' = filter (\<lambda>x. row_id x \<noteq> row_id r) db @ [new]"
    by (simp add: new insert_or_replace_def new_id)
  show "fst ?res = None" by (simp add: new)
  show reach: "reachable ?db'" using assms by (rule reachable_add)
  show "distinct (map row_id ?db')" using reach by (rule reachable_distinct)
  show "\<exists>x\<in>set ?db'. row_id x = row_id r \<and> row_record_id x = b \<and> row_embedding x = np_array fl e"
    unfolding db' using new_id new_rec new_emb by auto
  show only: "row_record_id x = b" if "x \<in> set ?db'" "row_id x = row_id r" for x
    using that new_rec unfolding db' by auto
  show "row_id r \<notin> hit_id ` set (query_vectors fl' ?db' (row_record_id r) q k)" for fl' q k
  proof
    assume "row_id r \<in> hit_id ` set (query_vectors fl' ?db' (row_record_id r) q k)"
    then obtain h where h: "h \<in> set (query_vectors fl' ?db' (row_record_id r) q k)"
      "hit_id h = row_id r" by auto
    from query_vectors_hits_from_rows[OF h(1)]
    obtain x where "x \<in> set ?db'" "row_record_id x = row_record_id r" "row_id x = row_id r"
      using h(2) by (auto simp: hit_id_scored_row)
    with only[of x] ne show False by simp
  qed
  show "collection_count ?db' (row_record_id r) = collection_count db (row_record_id r) - 1"
  proof -
    have "filter (\<lambda>x. row_record_id x = row_record_id r) ?db' =
          filter (\<lambda>x. row_record_id x = row_record_id r \<and> row_id x \<noteq> row_id r) db"
      unfolding db' using ne new_rec by (auto simp: conj_commute intro: filter_cong)
    then show ?thesis
      using length_filter_drop_key[OF d r, of "\<lambda>x. row_record_id x = row_record_id r"]
      by (simp add: collection_count_def)
  qed
  show "collection_count ?db' b = collection_count db b + 1"
  proof -
    have "filter (\<lambda>x. row_record_id x = b \<and> row_id x \<noteq> row_id r) db =
          filter (\<lambda>x. row_record_id x = b) db"
    proof (rule filter_cong[OF refl])
      fix x assume x: "x \<in> set db"
      show "(row_record_id x = b \<and> row_id x \<noteq> row_id r) = (row_record_id x = b)"
        using distinct_key_unique[OF d x r] ne by auto
    qed
    then have "filter (\<lambda>x. row_record_id x = b) ?db' = filter (\<lambda>x. row_record_id x = b) db @ [new]"
      unfolding db' using new_rec by (simp add: conj_commute)
    then show ?thesis by (simp add: collection_count_def)
  qed
qed

theorem vector_ids_unique_witness:
  "reachable example_db \<and>
   \<lparr>row_id = ''c1'', row_record_id = ''rec_1'', row_embedding = [Fin 1, Fin 0],
     row_document = ''the quick brown fox'', row_metadata = []\<rparr> \<in> set example_db \<and>
   ''rec_1'' \<noteq> ''rec_2'' \<and>
   collection_count example_db ''rec_1'' = 2 \<and>
   collection_count example_db ''rec_2'' = 1 \<and>
   collection_count (snd (add_vectors simple_float ''rec_2'' [''c1''] [[Fin 0, Fin 1]] [''moved''] None example_db)) ''rec_1'' = 1 \<and>
   collection_count (snd (add_vectors simple_float ''rec_2'' [''c1''] [[Fin 0, Fin 1]] [''moved''] None example_db)) ''rec_2'' = 2"
proof -
  let ?r = "\<lparr>row_id = ''c1'', row_record_id = ''rec_1'', row_embedding = [Fin 1, Fin 0],
     row_document = ''the quick brown fox'', row_metadata = []\<rparr>"
  have r: "reachable example_db" by (rule reachable_example_db)
  have m: "?r \<in> set example_db" by (simp add: example_db_def)
  have ne: "row_record_id ?r \<noteq> ''rec_2''" by simp
  have ne': "''rec_1'' \<noteq> ''rec_2''" by simp
  have 4: "collection_count example_db ''rec_1'' = 2"
    by (simp add: collection_count_def example_db_def)
  have 5: "collection_count example_db ''rec_2'' = 1"
    by (simp add: collection_count_def example_db_def)
  note u = vector_ids_unique [where fl = simple_float and e = "[Fin 0, Fin 1]" and es = "[]"
      and docs = "[''moved'']" and metas = None,
      OF r, THEN conjunct2, rule_format, OF m ne]
  from u have "collection_count (snd (add_vectors simple_float ''rec_2'' [row_id ?r] [[Fin 0, Fin 1]] [''moved''] None example_db))
                 (row_record_id ?r) = collection_count example_db (row_record_id ?r) - 1"
    by (elim conjE)
  then have 6: "collection_count (snd (add_vectors simple_float ''rec_2'' [''c1''] [[Fin 0, Fin 1]] [''moved''] None example_db)) ''rec_1'' = 1"
    using 4 by simp
  from u have "collection_count (snd (add_vectors simple_float ''rec_2'' [row_id ?r] [[Fin 0, Fin 1]] [''moved''] None example_db))
                 ''rec_2'' = collection_count example_db ''rec_2'' + 1"
    by (elim conjE)
  then have 7: "collection_count (snd (add_vectors simple_float ''rec_2'' [''c1''] [[Fin 0, Fin 1]] [''moved''] None example_db)) ''rec_2'' = 2"
    using 5 by simp
  show ?thesis
    by (intro conjI) (rule r, rule m, rule ne', rule 4, rule 5, rule 6, rule 7)
qed

section \<open>Properties of hybrid retrieval\<close>

subsection \<open>Reciprocal rank fusion\<close>

lemma rank_from_None_iff: "rank_from r xs cid = None \<longleftrightarrow> cid \<notin> chunk_id ` set xs"
  by (induction xs arbitrary: r) auto

lemma rank_from_ge: "rank_from r xs cid = Some n \<Longrightarrow> r \<le> n"
  by (induction xs arbitrary: r) (auto split: if_splits dest: Suc_leD)

lemma dict_get_or_update:
  "dict_get_or (AList.update k v d) k' x = (if k' = k then v else dict_get_or d k' x)"
  by (simp add: dict_get_or_def update_conv')

lemma rrf_loops_same_scores:
  "fst (rrf_keyword_loop k rank xs scores cm) = fst (rrf_vector_loop k rank xs scores cm')"
  by (induction xs arbitrary: rank scores cm cm') (simp_all add: Let_def)

lemma rrf_vector_loop_scores:
  assumes "distinct (map chunk_id xs)"
  shows "map_of (fst (rrf_vector_loop k rank xs scores cm)) cid =
           (case rank_from rank xs cid of
              None \<Rightarrow> map_of scores cid
            | Some r \<Rightarrow> Some (dict_get_or scores cid 0 + 1 / real (k + r)))"
  using assms
proof (induction xs arbitrary: rank scores cm)
  case Nil
  then show ?case by simp
next
  case (Cons x xs)
  let ?scores' = "AList.update (chunk_id x) (dict_get_or scores (chunk_id x) 0 + 1 / real (k + rank)) scores"
  let ?cm' = "AList.update (chunk_id x) x cm"
  from Cons.prems have d: "distinct (map chunk_id xs)" and nin: "chunk_id x \<notin> chunk_id ` set xs"
    by simp_all
  note IH = Cons.IH[OF d, of "rank + 1" ?scores' ?cm']
  show ?case
  proof (cases "chunk_id x = cid")
    case True
    with nin have "rank_from (rank + 1) xs cid = None" by (simp add: rank_from_None_iff)
    with IH True show ?thesis by (simp add: Let_def update_conv')
  next
    case False
    with IH show ?thesis
      by (simp add: Let_def update_conv' dict_get_or_update split: option.split)
  qed
qed

lemma rrf_vector_loop_keys:
  "fst ` set (fst (rrf_vector_loop k rank xs scores cm)) = fst ` set scores \<union> chunk_id ` set xs"
  by (induction xs arbitrary: rank scores cm) (auto simp: Let_def dom_update image_iff)

lemma rrf_vector_loop_distinct:
  "distinct (map fst scores) \<Longrightarrow> distinct (map fst (fst (rrf_vector_loop k rank xs scores cm)))"
  by (induction xs arbitrary: rank scores cm) (simp_all add: Let_def distinct_update)

lemma find_chunk_None_iff:
  "find (\<lambda>c. chunk_id c = cid) xs = None \<longleftrightarrow> cid \<notin> chunk_id ` set xs"
  by (auto simp: find_None_iff)

lemma find_chunk_Some:
  "find (\<lambda>c. chunk_id c = cid) xs = Some v \<Longrightarrow> v \<in> set xs \<and> chunk_id v = cid"
  by (induction xs) (auto split: if_splits)

lemma find_chunk_distinct:
  assumes "distinct (map chunk_id xs)" "v \<in> set xs" "chunk_id v = cid"
  shows "find (\<lambda>c. chunk_id c = cid) xs = Some v"
  using assms by (induction xs) (auto simp: image_iff)

lemma rrf_vector_loop_chunk_map:
  assumes "distinct (map chunk_id xs)"
  shows "map_of (snd (rrf_vector_loop k rank xs scores cm)) cid =
           (case find (\<lambda>c. chunk_id c = cid) xs of
              None \<Rightarrow> map_of cm cid
            | Some v \<Rightarrow> Some v)"
  using assms
proof (induction xs arbitrary: rank scores cm)
  case Nil
  then show ?case by simp
next
  case (Cons x xs)
  from Cons.prems have d: "distinct (map chunk_id xs)" and nin: "chunk_id x \<notin> chunk_id ` set xs"
    by simp_all
  note IH = Cons.IH[OF d]
  show ?case
  proof (cases "chunk_id x = cid")
    case True
    with nin have "find (\<lambda>c. chunk_id c = cid) xs = None" by (simp add: find_chunk_None_iff)
    with IH True show ?thesis by (simp add: Let_def update_conv')
  next
    case False
    with IH show ?thesis by (simp add: Let_def update_conv' split: option.split)
  qed
qed

lemma rrf_keyword_loop_chunk_map:
  assumes "distinct (map chunk_id xs)"
  shows "map_of (snd (rrf_keyword_loop k rank xs scores cm)) cid =
           (case find (\<lambda>c. chunk_id c = cid) xs of
              None \<Rightarrow> map_of cm cid
            | Some w \<Rightarrow>
                (case map_of cm cid of
                   Some c \<Rightarrow> Some (c\<lparr>keyword_score := keyword_score w,
                                        match_highlights := match_highlights w\<rparr>)
                 | None \<Rightarrow> Some w))"
  using assms
proof (induction xs arbitrary: rank scores cm)
  case Nil
  then show ?case by simp
next
  case (Cons x xs)
  from Cons.prems have d: "distinct (map chunk_id xs)" and nin: "chunk_id x \<notin> chunk_id ` set xs"
    by simp_all
  note IH = Cons.IH[OF d]
  show ?case
  proof (cases "chunk_id x = cid")
    case True
    with nin have "find (\<lambda>c. chunk_id c = cid) xs = None" by (simp add: find_chunk_None_iff)
    with IH True show ?thesis by (simp add: Let_def update_conv' split: option.split)
  next
    case False
    with IH show ?thesis by (simp add: Let_def update_conv' split: option.split)
  qed
qed

lemma rrf_assign_eq:
  assumes "fst ` set scores \<subseteq> dom (map_of cm)"
  shows "rrf_assign scores cm =
           Inr (map (\<lambda>(cid, rrf). (the (map_of cm cid))\<lparr>rrf_score := Fin rrf\<rparr>) scores)"
  using assms
proof (induction scores)
  case Nil
  then show ?case by simp
next
  case (Cons p scores)
  obtain cid rrf where p: "p = (cid, rrf)" by (cases p)
  from Cons.prems p obtain c where c: "map_of cm cid = Some c" by auto
  from Cons have "rrf_assign scores cm =
           Inr (map (\<lambda>(cid, rrf). (the (map_of cm cid))\<lparr>rrf_score := Fin rrf\<rparr>) scores)"
    by simp
  with p c show ?case by simp
qed

lemma sort_desc_mset: "mset (sort_desc f xs) = mset xs"
  by (simp add: sort_desc_def)

lemma sort_desc_set: "set (sort_desc f xs) = set xs"
  by (simp add: sort_desc_def)

lemma sort_desc_distinct_map:
  "distinct (map g (sort_desc f xs)) = distinct (map g xs)"
proof -
  have "mset (map g (sort_desc f xs)) = mset (map g xs)"
    by (simp add: sort_desc_mset)
  then show ?thesis by (rule mset_eq_imp_distinct_iff)
qed

lemma py_sort_key_reverse_Fin: "py_sort_key_reverse (\<lambda>x. Fin (f x)) xs = sort_desc f xs"
  unfolding sort_desc_def
proof (rule properties_for_sort_key[symmetric])
  let ?ys = "py_sort_key (\<lambda>x. Fin (f x)) (rev xs)"
  show "mset (py_sort_key_reverse (\<lambda>x. Fin (f x)) xs) = mset xs"
    by (rule mset_py_sort_key_reverse)
  show "filter (\<lambda>x. - f k = - f x) (py_sort_key_reverse (\<lambda>x. Fin (f x)) xs) =
        filter (\<lambda>x. - f k = - f x) xs" for k
  proof -
    have "filter (\<lambda>z. f z = f k) (py_sort_key (\<lambda>x. Fin (f x)) (rev xs)) =
          rev (filter (\<lambda>z. f z = f k) xs)"
      using filter_py_sort_key[of "\<lambda>x. Fin (f x)" "Fin (f k)" "rev xs"]
      by (simp add: rev_filter)
    then have "rev (filter (\<lambda>z. f z = f k) (py_sort_key (\<lambda>x. Fin (f x)) (rev xs))) =
          filter (\<lambda>z. f z = f k) xs"
      by simp
    then show ?thesis
      by (simp add: py_sort_key_reverse_def eq_commute rev_filter[symmetric])
  qed
  have "sorted (map f ?ys)"
    by (simp only: py_sort_key_Fin sorted_sort_key)
  then have "sorted_wrt (\<lambda>a b. f a \<le> f b) ?ys" by (simp add: sorted_map)
  then have "sorted_wrt (\<lambda>a b. - f a \<le> - f b) (rev ?ys)"
    by (simp add: sorted_wrt_rev)
  then show "sorted (map (\<lambda>x. - f x) (py_sort_key_reverse (\<lambda>x. Fin (f x)) xs))"
    by (simp add: py_sort_key_reverse_def sorted_map)
qed

lemma rrf_merge_spec:
  fixes k :: nat
  assumes dv: "distinct (map chunk_id vr)" and dk: "distinct (map chunk_id kr)"
  defines "tv \<equiv> \<lambda>cid. case rank_from 1 vr cid of None \<Rightarrow> 0 | Some r \<Rightarrow> 1 / real (k + r)"
    and "tk \<equiv> \<lambda>cid. case rank_from 1 kr cid of None \<Rightarrow> 0 | Some r \<Rightarrow> 1 / real (k + r)"
  shows "\<exists>merged. rrf_merge vr kr k = Inr merged \<and>
           distinct (map chunk_id merged) \<and>
           chunk_id ` set merged = chunk_id ` set vr \<union> chunk_id ` set kr \<and>
           (\<forall>c\<in>set merged.
              rrf_score c = Fin (tv (chunk_id c) + tk (chunk_id c)) \<and>
              (\<forall>v w. v \<in> set vr \<and> chunk_id v = chunk_id c \<and> w \<in> set kr \<and> chunk_id w = chunk_id c \<longrightarrow>
                 c = v\<lparr>keyword_score := keyword_score w, match_highlights := match_highlights w,
                       rrf_score := rrf_score c\<rparr>) \<and>
              (\<forall>v. v \<in> set vr \<and> chunk_id v = chunk_id c \<and> chunk_id c \<notin> chunk_id ` set kr \<longrightarrow>
                 c = v\<lparr>rrf_score := rrf_score c\<rparr>) \<and>
              (\<forall>w. w \<in> set kr \<and> chunk_id w = chunk_id c \<and> chunk_id c \<notin> chunk_id ` set vr \<longrightarrow>
                 c = w\<lparr>rrf_score := rrf_score c\<rparr>))"
proof -
  obtain sc1 cm1 where l1: "rrf_vector_loop k 1 vr [] [] = (sc1, cm1)" by (cases "rrf_vector_loop k 1 vr [] []")
  obtain sc2 cm2 where l2: "rrf_keyword_loop k 1 kr sc1 cm1 = (sc2, cm2)" by (cases "rrf_keyword_loop k 1 kr sc1 cm1")
  have sc1: "sc1 = fst (rrf_vector_loop k 1 vr [] [])" and cm1: "cm1 = snd (rrf_vector_loop k 1 vr [] [])"
    by (simp_all only: l1 fst_conv snd_conv)
  have sc2: "sc2 = fst (rrf_vector_loop k 1 kr sc1 cm1)"
    using rrf_loops_same_scores[of k 1 kr sc1 cm1 cm1] by (simp only: l2 fst_conv)
  have cm2: "cm2 = snd (rrf_keyword_loop k 1 kr sc1 cm1)" by (simp only: l2 snd_conv)
  have map1: "map_of sc1 cid = (case rank_from 1 vr cid of None \<Rightarrow> None | Some r \<Rightarrow> Some (1 / real (k + r)))" for cid
    using rrf_vector_loop_scores[OF dv, of k 1 "[]" "[]" cid]
    by (simp add: sc1 dict_get_or_def split: option.split)
  have get1: "dict_get_or sc1 cid 0 = tv cid" for cid
    by (simp add: dict_get_or_def map1 tv_def split: option.split)
  have map2': "map_of sc2 cid =
           (case rank_from 1 kr cid of
              None \<Rightarrow> map_of sc1 cid
            | Some r \<Rightarrow> Some (dict_get_or sc1 cid 0 + 1 / real (k + r)))" for cid
    using rrf_vector_loop_scores[OF dk, of k 1 sc1 cm1 cid] by (simp add: sc2 split: option.split)
  have map2: "map_of sc2 cid =
       (if cid \<in> chunk_id ` set vr \<union> chunk_id ` set kr then Some (tv cid + tk cid) else None)" for cid
  proof (cases "rank_from 1 kr cid")
    case None
    then have nk: "cid \<notin> chunk_id ` set kr" by (simp add: rank_from_None_iff)
    from None have "map_of sc2 cid = map_of sc1 cid"
      by (simp add: map2')
    also have "\<dots> = (case rank_from 1 vr cid of None \<Rightarrow> None | Some r \<Rightarrow> Some (1 / real (k + r)))"
      by (rule map1)
    finally have m: "map_of sc2 cid =
        (case rank_from 1 vr cid of None \<Rightarrow> None | Some r \<Rightarrow> Some (1 / real (k + r)))" .
    show ?thesis
    proof (cases "rank_from 1 vr cid")
      case None': None
      then have "cid \<notin> chunk_id ` set vr" using rank_from_None_iff[of 1 vr cid] by simp
      with nk m None' show ?thesis by simp
    next
      case (Some r)
      then have "cid \<in> chunk_id ` set vr" using rank_from_None_iff[of 1 vr cid] by simp
      with m Some None show ?thesis by (simp add: tv_def tk_def)
    qed
  next
    case (Some r)
    then have "cid \<in> chunk_id ` set kr"
      using rank_from_None_iff[of 1 kr cid] by simp
    moreover from Some have "map_of sc2 cid = Some (dict_get_or sc1 cid 0 + 1 / real (k + r))"
      by (simp add: map2')
    ultimately show ?thesis using Some by (simp add: get1 tk_def)
  qed
  have keys2: "fst ` set sc2 = chunk_id ` set vr \<union> chunk_id ` set kr"
    unfolding sc2 sc1 by (simp add: rrf_vector_loop_keys)
  have dist2: "distinct (map fst sc2)"
    unfolding sc2 sc1 by (intro rrf_vector_loop_distinct) simp
  have cmap1: "map_of cm1 cid = find (\<lambda>c. chunk_id c = cid) vr" for cid
    using rrf_vector_loop_chunk_map[OF dv, of k 1 "[]" "[]" cid]
    by (simp add: cm1 split: option.split)
  have cmap2: "map_of cm2 cid =
           (case find (\<lambda>c. chunk_id c = cid) kr of
              None \<Rightarrow> find (\<lambda>c. chunk_id c = cid) vr
            | Some w \<Rightarrow>
                (case find (\<lambda>c. chunk_id c = cid) vr of
                   Some c \<Rightarrow> Some (c\<lparr>keyword_score := keyword_score w,
                                        match_highlights := match_highlights w\<rparr>)
                 | None \<Rightarrow> Some w))" for cid
    using rrf_keyword_loop_chunk_map[OF dk, of k 1 sc1 cm1 cid]
    by (simp add: cm2 cmap1 split: option.split)
  have cm2_some: "\<exists>c. map_of cm2 cid = Some c \<and> chunk_id c = cid"
    if "cid \<in> chunk_id ` set vr \<union> chunk_id ` set kr" for cid
  proof (cases "find (\<lambda>c. chunk_id c = cid) kr")
    case None
    with that have "cid \<in> chunk_id ` set vr" by (simp add: find_chunk_None_iff)
    then obtain v where "find (\<lambda>c. chunk_id c = cid) vr = Some v"
      using find_chunk_None_iff[of cid vr] by auto
    with None show ?thesis using find_chunk_Some[of cid vr v] by (simp add: cmap2)
  next
    case (Some w)
    from find_chunk_Some[OF Some] have w: "chunk_id w = cid" by simp
    show ?thesis
    proof (cases "find (\<lambda>c. chunk_id c = cid) vr")
      case None
      with Some w show ?thesis by (simp add: cmap2)
    next
      case (Some v)
      from find_chunk_Some[OF Some] have "chunk_id v = cid" by simp
      with Some \<open>find (\<lambda>c. chunk_id c = cid) kr = Some w\<close> show ?thesis by (simp add: cmap2)
    qed
  qed
  let ?result = "map (\<lambda>(cid, rrf). (the (map_of cm2 cid))\<lparr>rrf_score := Fin rrf\<rparr>) sc2"
  have "fst ` set sc2 \<subseteq> dom (map_of cm2)"
  proof
    fix x assume "x \<in> fst ` set sc2"
    then have "x \<in> chunk_id ` set vr \<union> chunk_id ` set kr" by (simp only: keys2)
    from cm2_some[OF this] obtain c where "map_of cm2 x = Some c" by (elim exE conjE)
    then show "x \<in> dom (map_of cm2)" by (rule domI)
  qed
  then have assign: "rrf_assign sc2 cm2 = Inr ?result" by (rule rrf_assign_eq)
  have merged: "rrf_merge vr kr k = Inr (py_sort_key_reverse rrf_score ?result)"
    by (simp only: rrf_merge_def l1 l2 assign prod.case sum.case)
  have ids_result: "map chunk_id ?result = map fst sc2"
  proof -
    have "chunk_id (case p of (cid, rrf) \<Rightarrow> (the (map_of cm2 cid))\<lparr>rrf_score := Fin rrf\<rparr>) = fst p"
      if "p \<in> set sc2" for p
    proof -
      obtain a b where p: "p = (a, b)" by (cases p)
      with that have "a \<in> fst ` set sc2" by force
      then have "a \<in> chunk_id ` set vr \<union> chunk_id ` set kr" by (simp only: keys2)
      from cm2_some[OF this] obtain c where "map_of cm2 a = Some c" "chunk_id c = a"
        by (elim exE conjE)
      with p show ?thesis by simp
    qed
    then show ?thesis by simp
  qed
  have d: "distinct (map chunk_id (py_sort_key_reverse rrf_score ?result))"
    by (simp only: distinct_map_py_sort_key_reverse ids_result dist2)
  have ids: "chunk_id ` set (py_sort_key_reverse rrf_score ?result) = chunk_id ` set vr \<union> chunk_id ` set kr"
  proof -
    have "chunk_id ` set ?result = set (map chunk_id ?result)" by (simp only: set_map)
    also have "\<dots> = fst ` set sc2" by (simp only: ids_result set_map)
    finally show ?thesis by (simp only: set_py_sort_key_reverse keys2)
  qed
  have each: "rrf_score c = Fin (tv (chunk_id c) + tk (chunk_id c)) \<and>
              (\<forall>v w. v \<in> set vr \<and> chunk_id v = chunk_id c \<and> w \<in> set kr \<and> chunk_id w = chunk_id c \<longrightarrow>
                 c = v\<lparr>keyword_score := keyword_score w, match_highlights := match_highlights w,
                       rrf_score := rrf_score c\<rparr>) \<and>
              (\<forall>v. v \<in> set vr \<and> chunk_id v = chunk_id c \<and> chunk_id c \<notin> chunk_id ` set kr \<longrightarrow>
                 c = v\<lparr>rrf_score := rrf_score c\<rparr>) \<and>
              (\<forall>w. w \<in> set kr \<and> chunk_id w = chunk_id c \<and> chunk_id c \<notin> chunk_id ` set vr \<longrightarrow>
                 c = w\<lparr>rrf_score := rrf_score c\<rparr>)"
    if "c \<in> set (py_sort_key_reverse rrf_score ?result)" for c
  proof -
    from that have "c \<in> set ?result" by (simp only: set_py_sort_key_reverse)
    then obtain cid rrf where in2: "(cid, rrf) \<in> set sc2"
      and c: "c = (the (map_of cm2 cid))\<lparr>rrf_score := Fin rrf\<rparr>" by auto
    from in2 have key: "cid \<in> chunk_id ` set vr \<union> chunk_id ` set kr" using keys2 by force
    from cm2_some[OF key] obtain c0 where c0: "map_of cm2 cid = Some c0" "chunk_id c0 = cid" by blast
    from in2 dist2 have "map_of sc2 cid = Some rrf" by simp
    with key have rrf: "rrf = tv cid + tk cid" by (simp add: map2)
    have cid: "chunk_id c = cid" and cc: "c = c0\<lparr>rrf_score := Fin rrf\<rparr>" by (simp_all add: c c0)
    have 1: "rrf_score c = Fin (tv (chunk_id c) + tk (chunk_id c))" by (simp add: cc rrf c0)
    have 2: "c = v\<lparr>keyword_score := keyword_score w, match_highlights := match_highlights w,
                       rrf_score := rrf_score c\<rparr>"
      if "v \<in> set vr \<and> chunk_id v = chunk_id c \<and> w \<in> set kr \<and> chunk_id w = chunk_id c" for v w
    proof -
      from that cid have "find (\<lambda>c. chunk_id c = cid) vr = Some v" "find (\<lambda>c. chunk_id c = cid) kr = Some w"
        using find_chunk_distinct[OF dv] find_chunk_distinct[OF dk] by simp_all
      with c0 have "c0 = v\<lparr>keyword_score := keyword_score w, match_highlights := match_highlights w\<rparr>"
        by (simp add: cmap2)
      then show ?thesis by (simp add: cc)
    qed
    have 3: "c = v\<lparr>rrf_score := rrf_score c\<rparr>"
      if "v \<in> set vr \<and> chunk_id v = chunk_id c \<and> chunk_id c \<notin> chunk_id ` set kr" for v
    proof -
      from that cid have "find (\<lambda>c. chunk_id c = cid) vr = Some v" "find (\<lambda>c. chunk_id c = cid) kr = None"
        using find_chunk_distinct[OF dv] find_chunk_None_iff[of cid kr] by simp_all
      with c0 have "c0 = v" by (simp add: cmap2)
      then show ?thesis by (simp add: cc)
    qed
    have 4: "c = w\<lparr>rrf_score := rrf_score c\<rparr>"
      if "w \<in> set kr \<and> chunk_id w = chunk_id c \<and> chunk_id c \<notin> chunk_id ` set vr" for w
    proof -
      from that cid have "find (\<lambda>c. chunk_id c = cid) kr = Some w" "find (\<lambda>c. chunk_id c = cid) vr = None"
        using find_chunk_distinct[OF dk] find_chunk_None_iff[of cid vr] by simp_all
      with c0 have "c0 = w" by (simp add: cmap2)
      then show ?thesis by (simp add: cc)
    qed
    show ?thesis
      by (intro conjI allI impI) (rule 1, erule 2, erule 3, erule 4)
  qed
  show ?thesis
  proof (intro exI[of _ "py_sort_key_reverse rrf_score ?result"] conjI)
    show "rrf_merge vr kr k = Inr (py_sort_key_reverse rrf_score ?result)" by (rule merged)
    show "distinct (map chunk_id (py_sort_key_reverse rrf_score ?result))" by (rule d)
    show "chunk_id ` set (py_sort_key_reverse rrf_score ?result) = chunk_id ` set vr \<union> chunk_id ` set kr"
      by (rule ids)
  qed (intro ballI, erule each)
qed

subsection \<open>The two channels\<close>

lemma distinct_py_slice: "distinct xs \<Longrightarrow> distinct (py_slice xs lo hi)"
  by (simp add: py_slice_def Let_def)

lemma length_py_slice_prefix: "0 \<le> k \<Longrightarrow> int (length (py_slice xs 0 k)) \<le> k"
  by (simp add: py_slice_prefix)

lemma fst_scored_row: "fst (scored_row fl q r) = hit_distance (snd (scored_row fl q r))"
  by (simp add: scored_row_def Let_def)

lemma query_vectors_ids:
  "map hit_id (query_vectors fl db rid q k) =
     py_slice (map (hit_id \<circ> snd) (py_sort_key fst (map (scored_row fl (np_array fl q))
        (filter (\<lambda>r. row_record_id r = rid) db)))) 0 k"
  by (simp add: query_vectors_eq map_py_slice)

lemma query_vectors_distinct:
  assumes "distinct (map row_id db)"
  shows "distinct (map hit_id (query_vectors fl db rid q k))"
proof -
  let ?rows = "filter (\<lambda>r. row_record_id r = rid) db"
  let ?scored = "map (scored_row fl (np_array fl q)) ?rows"
  have "map (hit_id \<circ> snd) ?scored = map row_id ?rows"
    by (simp add: hit_id_scored_row)
  moreover have "distinct (map row_id ?rows)"
    using assms by (rule distinct_map_filter)
  ultimately have "distinct (map (hit_id \<circ> snd) (py_sort_key fst ?scored))"
    by (simp only: distinct_map_py_sort_key)
  then show ?thesis
    by (simp only: query_vectors_ids distinct_py_slice)
qed

lemma sorted_wrt_py_slice: "sorted_wrt R xs \<Longrightarrow> sorted_wrt R (py_slice xs lo hi)"
  by (simp add: py_slice_def Let_def sorted_wrt_take sorted_wrt_drop)

lemma query_vectors_sorted:
  assumes "\<forall>r\<in>set db. row_record_id r = rid \<longrightarrow>
             fl_sub fl (Fin 1) (cosine_similarity fl (np_array fl q) (row_embedding r)) \<noteq> NaN"
  shows "sorted_wrt (\<lambda>a b. py_le (hit_distance a) (hit_distance b)) (query_vectors fl db rid q k)"
proof -
  let ?scored = "map (scored_row fl (np_array fl q)) (filter (\<lambda>r. row_record_id r = rid) db)"
  have "\<forall>x\<in>set ?scored. fst x \<noteq> NaN"
    using assms by (auto simp: fst_scored_row hit_distance_scored_row)
  then have "sorted_wrt (\<lambda>a b. py_le (fst a) (fst b)) (py_sort_key fst ?scored)"
    by (rule sorted_py_sort_key)
  moreover have "fst x = hit_distance (snd x)" if "x \<in> set (py_sort_key fst ?scored)" for x
    using that by (auto simp: set_py_sort_key fst_scored_row)
  ultimately have "sorted_wrt (\<lambda>a b. py_le (hit_distance (snd a)) (hit_distance (snd b)))
                     (py_sort_key fst ?scored)"
    by (auto elim!: sorted_wrt_mono_rel[rotated])
  then have "sorted_wrt (\<lambda>a b. py_le (hit_distance (snd a)) (hit_distance (snd b)))
               (py_slice (py_sort_key fst ?scored) 0 k)"
    by (rule sorted_wrt_py_slice)
  then show ?thesis
    by (simp add: query_vectors_eq sorted_wrt_map)
qed

lemma vector_ranked_of_ids: "map chunk_id (vector_ranked_of fl dc hits) = map hit_id hits"
  by (simp add: vector_ranked_of_def Let_def split: option.split)

lemma vector_ranked_of_scores:
  "map vector_score (vector_ranked_of fl dc hits) =
     map (\<lambda>h. py_max (Fin 0) (fl_sub fl (Fin 1) (hit_distance h))) hits"
  by (simp add: vector_ranked_of_def Let_def split: option.split)

lemma vector_ranked_of_Nil_iff: "vector_ranked_of fl dc hits = [] \<longleftrightarrow> hits = []"
  by (simp add: vector_ranked_of_def)

lemma keyword_scored_of_ids:
  "\<exists>sel. map chunk_id (keyword_scored_of re ps dc) = map fst (filter sel dc)"
proof -
  let ?f = "\<lambda>(cid, text', meta).
          (case score_chunk_regex re text' ps of
             (score, highlights) \<Rightarrow>
               if score > 0 then
                 Some \<lparr>chunk_id = cid, document = text', metadata = meta,
                       vector_score = Fin 0, keyword_score = score, rrf_score = Fin 0,
                       match_highlights = highlights\<rparr>
               else None)"
  have "map chunk_id (List.map_filter ?f dc) = map fst (filter (\<lambda>x. ?f x \<noteq> None) dc)"
    by (induction dc) (auto simp: List.map_filter_simps split: prod.splits option.splits if_splits)
  then show ?thesis unfolding keyword_scored_of_def by blast
qed

lemma keyword_ranked_of_distinct:
  assumes "distinct (map fst dc)"
  shows "distinct (map chunk_id (keyword_ranked_of re query dc vtk))"
proof -
  have d: "distinct (map chunk_id (keyword_scored_of re ps dc))" for ps
  proof -
    obtain sel where "map chunk_id (keyword_scored_of re ps dc) = map fst (filter sel dc)"
      using keyword_scored_of_ids by blast
    with assms show ?thesis by (simp add: distinct_map_filter)
  qed
  have "distinct (map chunk_id (py_slice (sort_desc keyword_score (keyword_scored_of re ps dc)) 0 vtk))" for ps
    by (simp only: map_py_slice) (intro distinct_py_slice, simp only: sort_desc_distinct_map d)
  then show ?thesis
    by (simp add: keyword_ranked_of_def Let_def split: prod.split)
qed

subsection \<open>Evaluation on the example\<close>

lemma example_vector_ranked:
  "vector_ranked_of simple_float example_chunks
     [\<lparr>hit_id = ''c1'', hit_distance = Fin 0, hit_document = ''the quick brown fox'', hit_metadata = []\<rparr>,
      \<lparr>hit_id = ''c2'', hit_distance = Fin 1, hit_document = ''jumps over lazy dog'', hit_metadata = []\<rparr>] =
     [\<lparr>chunk_id = ''c1'', document = ''the quick brown fox'', metadata = [],
       vector_score = Fin 1, keyword_score = 0, rrf_score = Fin 0, match_highlights = []\<rparr>,
      \<lparr>chunk_id = ''c2'', document = ''jumps over lazy dog'', metadata = [],
       vector_score = Fin 0, keyword_score = 0, rrf_score = Fin 0, match_highlights = []\<rparr>]"
  by (simp add: vector_ranked_of_def example_chunks_def example_sub py_max_def Let_def)

lemma scan1: "scan_words 0 [] ''the quick brown fox'' = [(0, ''the''), (4, ''quick''), (10, ''brown''), (16, ''fox'')]"
  by simp

lemma scan2: "scan_words 0 [] ''jumps over lazy dog'' = [(0, ''jumps''), (6, ''over''), (11, ''lazy''), (16, ''dog'')]"
  by simp

lemma scan3: "scan_words 0 [] ''quick fox'' = [(0, ''quick''), (6, ''fox'')]"
  by simp

lemma scan4: "scan_words 0 [] ''the and'' = [(0, ''the''), (4, ''and'')]"
  by simp

lemma terms1: "extract_query_terms word_re ''quick fox'' = ([], [''quick'', ''fox''])"
  by (simp add: extract_query_terms_def word_re_def scan3 py_lower_def py_lower_char_def STOP_WORDS_def)

lemma terms2: "extract_query_terms word_re ''the and'' = ([], [])"
  by (simp add: extract_query_terms_def word_re_def scan4 py_lower_def py_lower_char_def STOP_WORDS_def)

lemma pats1: "build_regex_patterns word_re [] [''quick'', ''fox''] = [(''quick'', 1 / 2), (''fox'', 1 / 2)]"
  by (simp add: build_regex_patterns_def word_re_def List.map_filter_simps)

lemma pats2: "build_regex_patterns word_re [] [] = []"
  by (simp add: build_regex_patterns_def List.map_filter_simps)

lemma score1:
  "score_chunk_regex word_re ''the quick brown fox'' [(''quick'', 1 / 2), (''fox'', 1 / 2)] =
     (1 / 3, [''the quick brown fox'', ''the quick brown fox''])"
  by (simp add: score_chunk_regex_def word_re_def word_spans_def scan1 Let_def
      py_slice_def py_strip_def is_space_def py_isspace_cp_def)

lemma score2:
  "score_chunk_regex word_re ''jumps over lazy dog'' [(''quick'', 1 / 2), (''fox'', 1 / 2)] = (0, [])"
  by (simp add: score_chunk_regex_def word_re_def word_spans_def scan2 Let_def)

lemma example_keyword_ranked:
  "keyword_ranked_of word_re ''quick fox'' example_chunks 15 =
     [\<lparr>chunk_id = ''c1'', document = ''the quick brown fox'', metadata = [],
       vector_score = Fin 0, keyword_score = 1 / 3, rrf_score = Fin 0,
       match_highlights = [''the quick brown fox'', ''the quick brown fox'']\<rparr>]"
  by (simp add: keyword_ranked_of_def terms1 pats1 keyword_scored_of_def example_chunks_def
      List.map_filter_simps score1 score2 sort_desc_def py_slice_def)

lemma example_keyword_empty:
  "keyword_ranked_of word_re ''the and'' example_chunks 15 = []"
  by (simp add: keyword_ranked_of_def terms2 pats2)

lemma example_merge:
  "rrf_merge
     [\<lparr>chunk_id = ''c1'', document = ''the quick brown fox'', metadata = [],
       vector_score = Fin 1, keyword_score = 0, rrf_score = Fin 0, match_highlights = []\<rparr>,
      \<lparr>chunk_id = ''c2'', document = ''jumps over lazy dog'', metadata = [],
       vector_score = Fin 0, keyword_score = 0, rrf_score = Fin 0, match_highlights = []\<rparr>]
     [\<lparr>chunk_id = ''c1'', document = ''the quick brown fox'', metadata = [],
       vector_score = Fin 0, keyword_score = 1 / 3, rrf_score = Fin 0,
       match_highlights = [''the quick brown fox'', ''the quick brown fox'']\<rparr>]
     RRF_K =
   Inr [\<lparr>chunk_id = ''c1'', document = ''the quick brown fox'', metadata = [],
         vector_score = Fin 1, keyword_score = 1 / 3, rrf_score = Fin (2 / 61),
         match_highlights = [''the quick brown fox'', ''the quick brown fox'']\<rparr>,
        \<lparr>chunk_id = ''c2'', document = ''jumps over lazy dog'', metadata = [],
         vector_score = Fin 0, keyword_score = 0, rrf_score = Fin (1 / 62), match_highlights = []\<rparr>]"
  by (simp add: rrf_merge_def RRF_K_def dict_get_or_def py_sort_key_reverse_def py_sort_key_def Let_def)

lemma vtk5: "effective_vtk 5 None = 15"
  by (simp add: effective_vtk_def)

subsection \<open>Claims about hybrid retrieval\<close>

lemma sorted_desc_scores:
  assumes "sorted_wrt (\<lambda>a b. py_le (hit_distance a) (hit_distance b)) hits"
    and "\<forall>x y. py_le x y \<longrightarrow> py_le (fl_sub fl (Fin 1) y) (fl_sub fl (Fin 1) x)"
  shows "sorted_wrt (\<lambda>a b. py_le b a)
           (map (\<lambda>h. py_max (Fin 0) (fl_sub fl (Fin 1) (hit_distance h))) hits)"
proof -
  have "py_le (py_max (Fin 0) (fl_sub fl (Fin 1) (hit_distance y)))
              (py_max (Fin 0) (fl_sub fl (Fin 1) (hit_distance x)))"
    if "py_le (hit_distance x) (hit_distance y)" for x y
    using that assms(2) by (intro py_max_mono) simp
  with assms(1) have "sorted_wrt (\<lambda>x y. py_le (py_max (Fin 0) (fl_sub fl (Fin 1) (hit_distance y)))
              (py_max (Fin 0) (fl_sub fl (Fin 1) (hit_distance x)))) hits"
    by (auto elim!: sorted_wrt_mono_rel[rotated])
  then show ?thesis by (simp add: sorted_wrt_map)
qed

lemma rrf_term_pos:
  assumes "cid \<in> chunk_id ` set xs"
  shows "0 < rrf_term xs cid"
proof -
  from assms obtain r where "rank_from 1 xs cid = Some r"
    using rank_from_None_iff[of 1 xs cid] by auto
  then show ?thesis by (simp add: rrf_term_def add_pos_nonneg)
qed

text \<open>
  Claim C8, as the code has it.  When the keyword channel yields no ranked chunk,
  \<open>hybrid_retrieve\<close> returns the slice \<open>[:top_k]\<close> of the vector channel, every chunk with
  \<open>rrf_score\<close> equal to its \<open>vector_score\<close>; there are at most \<open>top_k\<close> of them when \<open>top_k\<close> is
  not negative.  They are in descending order of vector similarity when no distance of the
  collection is NaN (and \<open>1.0 - x\<close> does not increase as \<open>x\<close> grows, as for every rounding
  of the difference).
\<close>

theorem hybrid_retrieve_vector_only:
  assumes "hits = query_vectors fl db record_id query_embedding (effective_vtk top_k vector_top_k)"
    and "keyword_ranked_of re query decrypted_chunks (effective_vtk top_k vector_top_k) = []"
  shows "\<exists>result.
           hybrid_retrieve fl re db record_id query query_embedding decrypted_chunks top_k
               vector_top_k = Inr result \<and>
           result = py_slice (map (\<lambda>chunk. chunk\<lparr>rrf_score := vector_score chunk\<rparr>)
                                (vector_ranked_of fl decrypted_chunks hits)) 0 top_k \<and>
           (\<forall>c\<in>set result. rrf_score c = vector_score c) \<and>
           (0 \<le> top_k \<longrightarrow> int (length result) \<le> top_k) \<and>
           map chunk_id result = py_slice (map hit_id hits) 0 top_k \<and>
           map vector_score result =
             py_slice (map (\<lambda>h. py_max (Fin 0) (fl_sub fl (Fin 1) (hit_distance h))) hits) 0 top_k \<and>
           ((\<forall>r\<in>set db. row_record_id r = record_id \<longrightarrow>
               fl_sub fl (Fin 1)
                 (cosine_similarity fl (np_array fl query_embedding) (row_embedding r)) \<noteq> NaN) \<and>
            (\<forall>x y. py_le x y \<longrightarrow> py_le (fl_sub fl (Fin 1) y) (fl_sub fl (Fin 1) x)) \<longrightarrow>
            sorted_wrt (\<lambda>a b. py_le (vector_score b) (vector_score a)) result)"
proof -
  let ?vr = "vector_ranked_of fl decrypted_chunks hits"
  let ?result = "py_slice (map (\<lambda>chunk. chunk\<lparr>rrf_score := vector_score chunk\<rparr>) ?vr) 0 top_k"
  have 1: "hybrid_retrieve fl re db record_id query query_embedding decrypted_chunks top_k
             vector_top_k = Inr ?result"
    using assms(2) unfolding assms(1) by (simp add: hybrid_retrieve_def Let_def)
  have ids: "map chunk_id ?result = py_slice (map hit_id hits) 0 top_k"
    by (simp add: map_py_slice o_def vector_ranked_of_ids)
  have scores: "map vector_score ?result =
             py_slice (map (\<lambda>h. py_max (Fin 0) (fl_sub fl (Fin 1) (hit_distance h))) hits) 0 top_k"
    by (simp add: map_py_slice o_def vector_ranked_of_scores)
  have 2: "sorted_wrt (\<lambda>a b. py_le (vector_score b) (vector_score a)) ?result"
    if "(\<forall>r\<in>set db. row_record_id r = record_id \<longrightarrow>
               fl_sub fl (Fin 1)
                 (cosine_similarity fl (np_array fl query_embedding) (row_embedding r)) \<noteq> NaN) \<and>
        (\<forall>x y. py_le x y \<longrightarrow> py_le (fl_sub fl (Fin 1) y) (fl_sub fl (Fin 1) x))"
  proof -
    from that have "sorted_wrt (\<lambda>a b. py_le (hit_distance a) (hit_distance b)) hits"
      unfolding assms(1) by (intro query_vectors_sorted) (rule conjunct1)
    with that have "sorted_wrt (\<lambda>a b. py_le b a)
           (map (\<lambda>h. py_max (Fin 0) (fl_sub fl (Fin 1) (hit_distance h))) hits)"
      by (intro sorted_desc_scores) (assumption, rule conjunct2)
    then have "sorted_wrt (\<lambda>a b. py_le b a) (map vector_score ?result)"
      unfolding scores by (rule sorted_wrt_py_slice)
    then show ?thesis by (simp only: sorted_wrt_map)
  qed
  have 3: "\<forall>c\<in>set ?result. rrf_score c = vector_score c"
  proof
    fix c assume "c \<in> set ?result"
    then have "c \<in> set (map (\<lambda>chunk. chunk\<lparr>rrf_score := vector_score chunk\<rparr>) ?vr)"
      by (rule subsetD[OF set_py_slice])
    then show "rrf_score c = vector_score c" by auto
  qed
  have 4: "0 \<le> top_k \<longrightarrow> int (length ?result) \<le> top_k"
    by (intro impI length_py_slice_prefix)
  show ?thesis
  proof (intro exI[of _ ?result] conjI)
    show "hybrid_retrieve fl re db record_id query query_embedding decrypted_chunks top_k
             vector_top_k = Inr ?result" by (rule 1)
    show "?result = ?result" by (rule refl)
    show "\<forall>c\<in>set ?result. rrf_score c = vector_score c" by (rule 3)
    show "0 \<le> top_k \<longrightarrow> int (length ?result) \<le> top_k" by (rule 4)
    show "map chunk_id ?result = py_slice (map hit_id hits) 0 top_k" by (rule ids)
    show "map vector_score ?result =
             py_slice (map (\<lambda>h. py_max (Fin 0) (fl_sub fl (Fin 1) (hit_distance h))) hits) 0 top_k"
      by (rule scores)
    show "(\<forall>r\<in>set db. row_record_id r = record_id \<longrightarrow>
               fl_sub fl (Fin 1)
                 (cosine_similarity fl (np_array fl query_embedding) (row_embedding r)) \<noteq> NaN) \<and>
            (\<forall>x y. py_le x y \<longrightarrow> py_le (fl_sub fl (Fin 1) y) (fl_sub fl (Fin 1) x)) \<longrightarrow>
            sorted_wrt (\<lambda>a b. py_le (vector_score b) (vector_score a)) ?result"
      by (intro impI) (erule 2)
  qed
qed

theorem hybrid_retrieve_vector_only_witness:
  "keyword_ranked_of word_re ''the and'' example_chunks (effective_vtk 5 None) = [] \<and>
   (0::int) \<le> 5 \<and>
   map hit_distance (query_vectors simple_float example_db ''rec_1'' [Fin 1, Fin 0] (effective_vtk 5 None)) =
     [Fin 0, Fin 1] \<and>
   hybrid_retrieve simple_float word_re example_db ''rec_1'' ''the and'' [Fin 1, Fin 0] example_chunks 5 None =
     Inr [\<lparr>chunk_id = ''c1'', document = ''the quick brown fox'', metadata = [],
           vector_score = Fin 1, keyword_score = 0, rrf_score = Fin 1, match_highlights = []\<rparr>,
          \<lparr>chunk_id = ''c2'', document = ''jumps over lazy dog'', metadata = [],
           vector_score = Fin 0, keyword_score = 0, rrf_score = Fin 0, match_highlights = []\<rparr>] \<and>
   sorted_wrt (\<lambda>a b. py_le (vector_score b) (vector_score a))
     [\<lparr>chunk_id = ''c1'', document = ''the quick brown fox'', metadata = [],
           vector_score = Fin 1, keyword_score = 0, rrf_score = Fin 1, match_highlights = []\<rparr>,
          \<lparr>chunk_id = ''c2'', document = ''jumps over lazy dog'', metadata = [],
           vector_score = Fin 0, keyword_score = 0, rrf_score = Fin 0, match_highlights = []\<rparr>]"
proof -
  let ?out = "[\<lparr>chunk_id = ''c1'', document = ''the quick brown fox'', metadata = [],
           vector_score = Fin 1, keyword_score = 0, rrf_score = Fin 1, match_highlights = []\<rparr>,
          \<lparr>chunk_id = ''c2'', document = ''jumps over lazy dog'', metadata = [],
           vector_score = Fin 0, keyword_score = 0, rrf_score = Fin 0, match_highlights = []\<rparr>]"
  have k: "(0::int) \<le> 5" by simp
  have e: "keyword_ranked_of word_re ''the and'' example_chunks (effective_vtk 5 None) = []"
    by (simp only: vtk5 example_keyword_empty)
  have n: "\<forall>r\<in>set example_db. row_record_id r = ''rec_1'' \<longrightarrow>
      fl_sub simple_float (Fin 1)
        (cosine_similarity simple_float (np_array simple_float [Fin 1, Fin 0]) (row_embedding r)) \<noteq> NaN"
    by (simp add: example_db_def example_array example_cos1 example_cos2 example_sub)
  have a: "\<forall>x y. py_le x y \<longrightarrow> py_le (fl_sub simple_float (Fin 1) y) (fl_sub simple_float (Fin 1) x)"
    by (intro allI impI) (rule sf_sub_antitone)
  from hybrid_retrieve_vector_only [where fl = simple_float and db = example_db
      and record_id = "''rec_1''" and query_embedding = "[Fin 1, Fin 0]", OF refl e]
  obtain result where
    r: "hybrid_retrieve simple_float word_re example_db ''rec_1'' ''the and'' [Fin 1, Fin 0]
          example_chunks 5 None = Inr result"
    and eq: "result = py_slice (map (\<lambda>chunk. chunk\<lparr>rrf_score := vector_score chunk\<rparr>)
           (vector_ranked_of simple_float example_chunks
             (query_vectors simple_float example_db ''rec_1'' [Fin 1, Fin 0] (effective_vtk 5 None)))) 0 5"
    and srt: "(\<forall>r\<in>set example_db. row_record_id r = ''rec_1'' \<longrightarrow>
               fl_sub simple_float (Fin 1)
                 (cosine_similarity simple_float (np_array simple_float [Fin 1, Fin 0]) (row_embedding r)) \<noteq> NaN) \<and>
            (\<forall>x y. py_le x y \<longrightarrow> py_le (fl_sub simple_float (Fin 1) y) (fl_sub simple_float (Fin 1) x)) \<longrightarrow>
            sorted_wrt (\<lambda>a b. py_le (vector_score b) (vector_score a)) result"
    by (elim exE conjE)
  have q: "query_vectors simple_float example_db ''rec_1'' [Fin 1, Fin 0] (effective_vtk 5 None) =
     [\<lparr>hit_id = ''c1'', hit_distance = Fin 0, hit_document = ''the quick brown fox'', hit_metadata = []\<rparr>,
      \<lparr>hit_id = ''c2'', hit_distance = Fin 1, hit_document = ''jumps over lazy dog'', hit_metadata = []\<rparr>]"
    by (simp add: vtk5 example_query py_slice_def)
  from eq have res: "result = ?out"
    unfolding q by (simp add: example_vector_ranked py_slice_def)
  from srt n a have s: "sorted_wrt (\<lambda>a b. py_le (vector_score b) (vector_score a)) result"
    by (intro mp[OF srt] conjI)
  show ?thesis
  proof (intro conjI)
    show "keyword_ranked_of word_re ''the and'' example_chunks (effective_vtk 5 None) = []" by (rule e)
    show "(0::int) \<le> 5" by (rule k)
    show "map hit_distance (query_vectors simple_float example_db ''rec_1'' [Fin 1, Fin 0]
            (effective_vtk 5 None)) = [Fin 0, Fin 1]"
      unfolding q by simp
    show "hybrid_retrieve simple_float word_re example_db ''rec_1'' ''the and'' [Fin 1, Fin 0]
            example_chunks 5 None = Inr ?out"
      using r res by (simp only:)
    show "sorted_wrt (\<lambda>a b. py_le (vector_score b) (vector_score a)) ?out"
      using s res by (simp only:)
  qed
qed

theorem hybrid_retrieve_vector_only_counterexample:
  "hybrid_retrieve simple_float word_re overflow_db ''rec_1'' ''the and''
       [Fin 10000000000, Fin 0] example_chunks 5 None =
     Inr [\<lparr>chunk_id = ''c1'', document = ''the quick brown fox'', metadata = [],
           vector_score = Fin 0, keyword_score = 0, rrf_score = Fin 0, match_highlights = []\<rparr>,
          \<lparr>chunk_id = ''c2'', document = ''jumps over lazy dog'', metadata = [],
           vector_score = Fin 1, keyword_score = 0, rrf_score = Fin 1, match_highlights = []\<rparr>] \<and>
   hybrid_retrieve simple_float word_re example_db ''rec_1'' ''the and''
       [Fin 1, Fin 0] example_chunks (- 1) (Some 5) =
     Inr [\<lparr>chunk_id = ''c1'', document = ''the quick brown fox'', metadata = [],
           vector_score = Fin 1, keyword_score = 0, rrf_score = Fin 1, match_highlights = []\<rparr>]"
proof (intro conjI)
  have sq: "sqrt 100000000000000000000 = 10000000000"
    by (rule real_sqrt_unique) simp_all
  have c1: "cosine_similarity simple_float [Fin 10000000000, Fin 0]
              [Fin 1000000000000000000000000000000, Fin 0] = NaN"
    by (simp add: vec_eval sq)
  have c2: "cosine_similarity simple_float [Fin 10000000000, Fin 0] [Fin 1, Fin 0] = Fin 1"
    by (simp add: vec_eval sq)
  have a: "np_array simple_float [Fin 10000000000, Fin 0] = [Fin 10000000000, Fin 0]"
    by (simp add: sf_eval)
  have sub: "fl_sub simple_float (Fin 1) NaN = NaN"
    by (simp add: simple_float_def)
  have q: "query_vectors simple_float overflow_db ''rec_1'' [Fin 10000000000, Fin 0] 15 =
     [\<lparr>hit_id = ''c1'', hit_distance = NaN, hit_document = ''the quick brown fox'', hit_metadata = []\<rparr>,
      \<lparr>hit_id = ''c2'', hit_distance = Fin 0, hit_document = ''jumps over lazy dog'', hit_metadata = []\<rparr>]"
    by (simp add: query_vectors_def overflow_db_def a scored_row_def c1 c2 sub example_sub
        py_sort_key_def py_slice_def Let_def)
  have v: "vector_ranked_of simple_float example_chunks
     [\<lparr>hit_id = ''c1'', hit_distance = NaN, hit_document = ''the quick brown fox'', hit_metadata = []\<rparr>,
      \<lparr>hit_id = ''c2'', hit_distance = Fin 0, hit_document = ''jumps over lazy dog'', hit_metadata = []\<rparr>] =
     [\<lparr>chunk_id = ''c1'', document = ''the quick brown fox'', metadata = [],
       vector_score = Fin 0, keyword_score = 0, rrf_score = Fin 0, match_highlights = []\<rparr>,
      \<lparr>chunk_id = ''c2'', document = ''jumps over lazy dog'', metadata = [],
       vector_score = Fin 1, keyword_score = 0, rrf_score = Fin 0, match_highlights = []\<rparr>]"
    by (simp add: vector_ranked_of_def example_chunks_def sub example_sub py_max_def Let_def)
  show "hybrid_retrieve simple_float word_re overflow_db ''rec_1'' ''the and''
       [Fin 10000000000, Fin 0] example_chunks 5 None =
     Inr [\<lparr>chunk_id = ''c1'', document = ''the quick brown fox'', metadata = [],
           vector_score = Fin 0, keyword_score = 0, rrf_score = Fin 0, match_highlights = []\<rparr>,
          \<lparr>chunk_id = ''c2'', document = ''jumps over lazy dog'', metadata = [],
           vector_score = Fin 1, keyword_score = 0, rrf_score = Fin 1, match_highlights = []\<rparr>]"
    by (simp add: hybrid_retrieve_def vtk5 example_keyword_empty q v py_slice_def Let_def)
  have vtk: "effective_vtk (- 1) (Some 5) = 5" by (simp add: effective_vtk_def)
  have e: "keyword_ranked_of word_re ''the and'' example_chunks 5 = []"
    by (simp add: keyword_ranked_of_def terms2 pats2)
  have q': "query_vectors simple_float example_db ''rec_1'' [Fin 1, Fin 0] 5 =
     [\<lparr>hit_id = ''c1'', hit_distance = Fin 0, hit_document = ''the quick brown fox'', hit_metadata = []\<rparr>,
      \<lparr>hit_id = ''c2'', hit_distance = Fin 1, hit_document = ''jumps over lazy dog'', hit_metadata = []\<rparr>]"
    by (simp add: example_query py_slice_def)
  show "hybrid_retrieve simple_float word_re example_db ''rec_1'' ''the and''
       [Fin 1, Fin 0] example_chunks (- 1) (Some 5) =
     Inr [\<lparr>chunk_id = ''c1'', document = ''the quick brown fox'', metadata = [],
           vector_score = Fin 1, keyword_score = 0, rrf_score = Fin 1, match_highlights = []\<rparr>]"
    by (simp add: hybrid_retrieve_def vtk e q' example_vector_ranked py_slice_def Let_def)
qed

text \<open>
  Claim C1.  When both channels are non-empty, \<open>hybrid_retrieve\<close> returns the first \<open>top_k\<close>
  chunks of the merged list, which holds one chunk per id of either list.  The fused score
  of every chunk is the sum, over the two ranked lists, of \<open>1 / (60 + rank)\<close> for the lists
  the chunk appears in (ranks from 1).  A chunk in both lists has a fused score strictly
  greater than either single term, and it is the chunk of the vector list with the keyword
  score and the highlights of the keyword-list entry (and the fused score) written onto it.
\<close>

theorem hybrid_retrieve_rrf:
  assumes "reachable db" "distinct (map fst decrypted_chunks)"
    and "hits = query_vectors fl db record_id query_embedding (effective_vtk top_k vector_top_k)"
    and "vector_ranked = vector_ranked_of fl decrypted_chunks hits"
    and "keyword_ranked =
           keyword_ranked_of re query decrypted_chunks (effective_vtk top_k vector_top_k)"
    and "vector_ranked \<noteq> []" "keyword_ranked \<noteq> []"
  shows "\<exists>merged.
           rrf_merge vector_ranked keyword_ranked RRF_K = Inr merged \<and>
           hybrid_retrieve fl re db record_id query query_embedding decrypted_chunks top_k
               vector_top_k = Inr (py_slice merged 0 top_k) \<and>
           set (py_slice merged 0 top_k) \<subseteq> set merged \<and>
           distinct (map chunk_id merged) \<and>
           chunk_id ` set merged = chunk_id ` set vector_ranked \<union> chunk_id ` set keyword_ranked \<and>
           (\<forall>c\<in>set merged.
              rrf_score c =
                Fin (rrf_term vector_ranked (chunk_id c) + rrf_term keyword_ranked (chunk_id c)) \<and>
              (\<forall>v w. v \<in> set vector_ranked \<and> chunk_id v = chunk_id c \<and>
                     w \<in> set keyword_ranked \<and> chunk_id w = chunk_id c \<longrightarrow>
                 py_lt (Fin (rrf_term vector_ranked (chunk_id c))) (rrf_score c) \<and>
                 py_lt (Fin (rrf_term keyword_ranked (chunk_id c))) (rrf_score c) \<and>
                 c = v\<lparr>keyword_score := keyword_score w,
                       match_highlights := match_highlights w,
                       rrf_score := rrf_score c\<rparr>))"
proof -
  have dv: "distinct (map chunk_id vector_ranked)"
    using query_vectors_distinct[OF reachable_distinct[OF assms(1)]]
    by (simp add: assms(3,4) vector_ranked_of_ids)
  have dk: "distinct (map chunk_id keyword_ranked)"
    unfolding assms(5) using assms(2) by (rule keyword_ranked_of_distinct)
  from rrf_merge_spec[OF dv dk, of RRF_K] obtain merged where
    m: "rrf_merge vector_ranked keyword_ranked RRF_K = Inr merged"
    and d: "distinct (map chunk_id merged)"
    and ids: "chunk_id ` set merged = chunk_id ` set vector_ranked \<union> chunk_id ` set keyword_ranked"
    and each: "\<forall>c\<in>set merged.
        rrf_score c =
          Fin ((case rank_from 1 vector_ranked (chunk_id c) of None \<Rightarrow> 0 | Some r \<Rightarrow> 1 / real (RRF_K + r)) +
               (case rank_from 1 keyword_ranked (chunk_id c) of None \<Rightarrow> 0 | Some r \<Rightarrow> 1 / real (RRF_K + r))) \<and>
        (\<forall>v w. v \<in> set vector_ranked \<and> chunk_id v = chunk_id c \<and>
               w \<in> set keyword_ranked \<and> chunk_id w = chunk_id c \<longrightarrow>
           c = v\<lparr>keyword_score := keyword_score w, match_highlights := match_highlights w,
                 rrf_score := rrf_score c\<rparr>) \<and>
        (\<forall>v. v \<in> set vector_ranked \<and> chunk_id v = chunk_id c \<and>
             chunk_id c \<notin> chunk_id ` set keyword_ranked \<longrightarrow>
           c = v\<lparr>rrf_score := rrf_score c\<rparr>) \<and>
        (\<forall>w. w \<in> set keyword_ranked \<and> chunk_id w = chunk_id c \<and>
             chunk_id c \<notin> chunk_id ` set vector_ranked \<longrightarrow>
           c = w\<lparr>rrf_score := rrf_score c\<rparr>)"
    by (elim exE conjE)
  have rt: "(case rank_from 1 xs cid of None \<Rightarrow> 0 | Some r \<Rightarrow> 1 / real (RRF_K + r)) = rrf_term xs cid"
    for xs cid
    by (simp add: rrf_term_def RRF_K_def split: option.split)
  have h: "hybrid_retrieve fl re db record_id query query_embedding decrypted_chunks top_k
               vector_top_k = Inr (py_slice merged 0 top_k)"
    using assms(6,7) m unfolding assms(3,4,5)
    by (simp add: hybrid_retrieve_def Let_def)
  have per: "rrf_score c =
                Fin (rrf_term vector_ranked (chunk_id c) + rrf_term keyword_ranked (chunk_id c)) \<and>
              (\<forall>v w. v \<in> set vector_ranked \<and> chunk_id v = chunk_id c \<and>
                     w \<in> set keyword_ranked \<and> chunk_id w = chunk_id c \<longrightarrow>
                 py_lt (Fin (rrf_term vector_ranked (chunk_id c))) (rrf_score c) \<and>
                 py_lt (Fin (rrf_term keyword_ranked (chunk_id c))) (rrf_score c) \<and>
                 c = v\<lparr>keyword_score := keyword_score w,
                       match_highlights := match_highlights w,
                       rrf_score := rrf_score c\<rparr>)"
    if c: "c \<in> set merged" for c
  proof -
    note e = each[rule_format, OF c, unfolded rt]
    from e have sum: "rrf_score c =
                Fin (rrf_term vector_ranked (chunk_id c) + rrf_term keyword_ranked (chunk_id c))"
      by (rule conjunct1)
    have both: "py_lt (Fin (rrf_term vector_ranked (chunk_id c))) (rrf_score c) \<and>
                 py_lt (Fin (rrf_term keyword_ranked (chunk_id c))) (rrf_score c) \<and>
                 c = v\<lparr>keyword_score := keyword_score w,
                       match_highlights := match_highlights w,
                       rrf_score := rrf_score c\<rparr>"
      if vw: "v \<in> set vector_ranked \<and> chunk_id v = chunk_id c \<and>
              w \<in> set keyword_ranked \<and> chunk_id w = chunk_id c" for v w
    proof -
      from vw have "chunk_id c \<in> chunk_id ` set vector_ranked" "chunk_id c \<in> chunk_id ` set keyword_ranked"
        by (metis imageI)+
      then have "0 < rrf_term vector_ranked (chunk_id c)" "0 < rrf_term keyword_ranked (chunk_id c)"
        by (simp_all only: rrf_term_pos)
      with sum have "py_lt (Fin (rrf_term vector_ranked (chunk_id c))) (rrf_score c)"
        "py_lt (Fin (rrf_term keyword_ranked (chunk_id c))) (rrf_score c)" by simp_all
      moreover from e[THEN conjunct2, THEN conjunct1, rule_format, OF vw]
      have "c = v\<lparr>keyword_score := keyword_score w, match_highlights := match_highlights w,
                 rrf_score := rrf_score c\<rparr>" .
      ultimately show ?thesis by (intro conjI)
    qed
    show ?thesis
      by (intro conjI allI impI) (rule sum, (erule both[THEN conjunct1]), (erule both[THEN conjunct2, THEN conjunct1]), (erule both[THEN conjunct2, THEN conjunct2]))
  qed
  show ?thesis
  proof (intro exI[of _ merged] conjI)
    show "rrf_merge vector_ranked keyword_ranked RRF_K = Inr merged" by (rule m)
    show "hybrid_retrieve fl re db record_id query query_embedding decrypted_chunks top_k
               vector_top_k = Inr (py_slice merged 0 top_k)" by (rule h)
    show "set (py_slice merged 0 top_k) \<subseteq> set merged" by (rule set_py_slice)
    show "distinct (map chunk_id merged)" by (rule d)
    show "chunk_id ` set merged = chunk_id ` set vector_ranked \<union> chunk_id ` set keyword_ranked"
      by (rule ids)
  qed (intro ballI, erule per)
qed

theorem hybrid_retrieve_rrf_witness:
  "reachable example_db \<and> distinct (map fst example_chunks) \<and>
   query_vectors simple_float example_db ''rec_1'' [Fin 1, Fin 0] (effective_vtk 5 None) =
     [\<lparr>hit_id = ''c1'', hit_distance = Fin 0, hit_document = ''the quick brown fox'', hit_metadata = []\<rparr>,
      \<lparr>hit_id = ''c2'', hit_distance = Fin 1, hit_document = ''jumps over lazy dog'', hit_metadata = []\<rparr>] \<and>
   vector_ranked_of simple_float example_chunks
     [\<lparr>hit_id = ''c1'', hit_distance = Fin 0, hit_document = ''the quick brown fox'', hit_metadata = []\<rparr>,
      \<lparr>hit_id = ''c2'', hit_distance = Fin 1, hit_document = ''jumps over lazy dog'', hit_metadata = []\<rparr>] \<noteq> [] \<and>
   keyword_ranked_of word_re ''quick fox'' example_chunks (effective_vtk 5 None) \<noteq> [] \<and>
   hybrid_retrieve simple_float word_re example_db ''rec_1'' ''quick fox'' [Fin 1, Fin 0] example_chunks 5 None =
     Inr [\<lparr>chunk_id = ''c1'', document = ''the quick brown fox'', metadata = [],
           vector_score = Fin 1, keyword_score = 1 / 3, rrf_score = Fin (2 / 61),
           match_highlights = [''the quick brown fox'', ''the quick brown fox'']\<rparr>,
          \<lparr>chunk_id = ''c2'', document = ''jumps over lazy dog'', metadata = [],
           vector_score = Fin 0, keyword_score = 0, rrf_score = Fin (1 / 62), match_highlights = []\<rparr>]"
proof -
  let ?hits = "[\<lparr>hit_id = ''c1'', hit_distance = Fin 0, hit_document = ''the quick brown fox'', hit_metadata = []\<rparr>,
      \<lparr>hit_id = ''c2'', hit_distance = Fin 1, hit_document = ''jumps over lazy dog'', hit_metadata = []\<rparr>]"
  have r: "reachable example_db" by (rule reachable_example_db)
  have d: "distinct (map fst example_chunks)" by (simp add: example_chunks_def)
  have h: "query_vectors simple_float example_db ''rec_1'' [Fin 1, Fin 0] (effective_vtk 5 None) = ?hits"
    by (simp add: vtk5 example_query py_slice_def)
  have v: "vector_ranked_of simple_float example_chunks ?hits \<noteq> []"
    by (simp add: vector_ranked_of_Nil_iff)
  have kw: "keyword_ranked_of word_re ''quick fox'' example_chunks (effective_vtk 5 None) \<noteq> []"
    by (simp add: vtk5 example_keyword_ranked)
  from hybrid_retrieve_rrf [OF r d h[symmetric] refl refl v kw]
  obtain merged where
    m: "rrf_merge (vector_ranked_of simple_float example_chunks ?hits)
          (keyword_ranked_of word_re ''quick fox'' example_chunks (effective_vtk 5 None)) RRF_K = Inr merged"
    and res: "hybrid_retrieve simple_float word_re example_db ''rec_1'' ''quick fox'' [Fin 1, Fin 0]
          example_chunks 5 None = Inr (py_slice merged 0 5)"
    by (elim exE conjE)
  from m have "merged =
     [\<lparr>chunk_id = ''c1'', document = ''the quick brown fox'', metadata = [],
           vector_score = Fin 1, keyword_score = 1 / 3, rrf_score = Fin (2 / 61),
           match_highlights = [''the quick brown fox'', ''the quick brown fox'']\<rparr>,
          \<lparr>chunk_id = ''c2'', document = ''jumps over lazy dog'', metadata = [],
           vector_score = Fin 0, keyword_score = 0, rrf_score = Fin (1 / 62), match_highlights = []\<rparr>]"
    by (simp only: vtk5 example_vector_ranked example_keyword_ranked example_merge sum.inject)
  with res have 6: "hybrid_retrieve simple_float word_re example_db ''rec_1'' ''quick fox'' [Fin 1, Fin 0]
       example_chunks 5 None =
     Inr [\<lparr>chunk_id = ''c1'', document = ''the quick brown fox'', metadata = [],
           vector_score = Fin 1, keyword_score = 1 / 3, rrf_score = Fin (2 / 61),
           match_highlights = [''the quick brown fox'', ''the quick brown fox'']\<rparr>,
          \<lparr>chunk_id = ''c2'', document = ''jumps over lazy dog'', metadata = [],
           vector_score = Fin 0, keyword_score = 0, rrf_score = Fin (1 / 62), match_highlights = []\<rparr>]"
    by (simp add: py_slice_def)
  show ?thesis
    by (intro conjI) (rule r, rule d, rule h, rule v, rule kw, rule 6)
qed
section \<open>Properties of the ingestion task\<close>

lemma body_keeps_documents:
  assumes "process_document_body env st document_id record_id user_id raw_bytes extension filename
             encrypted_master_key = (Some e, st')"
  shows "db_documents st' = db_documents st"
  using assms
  by (auto simp: process_document_body_def Let_def
      split: sum.splits if_splits prod.splits option.splits)


lemma set_document_error_status:
  assumes "db_documents st document_id = Some row"
  shows "\<exists>row'. db_documents (set_document_error st document_id err) document_id = Some row' \<and>
           doc_status row' = ''error'' \<and> doc_error_message row' = Some err"
  using assms by (simp add: set_document_error_def)

lemma set_document_indexed_status:
  assumes "db_documents st document_id = Some row"
  shows "\<exists>row'. db_documents (set_document_indexed st document_id pc tc) document_id = Some row' \<and>
           doc_status row' = ''indexed''"
  using assms by (simp add: set_document_indexed_def)

lemma body_normal_end:
  assumes "db_documents st document_id = Some row"
    and "process_document_body env st document_id record_id user_id raw_bytes extension filename
             encrypted_master_key = (None, st')"
  shows "\<exists>row'. db_documents st' document_id = Some row' \<and>
           (doc_status row' = ''indexed'' \<or>
            doc_status row' = ''error'' \<and>
              (\<exists>m. doc_error_message row' = Some m \<and> length m \<le> 500))"
proof -
  have e1: "\<exists>row'. db_documents (set_document_error st document_id m) document_id = Some row' \<and>
           (doc_status row' = ''indexed'' \<or>
            doc_status row' = ''error'' \<and>
              (\<exists>m. doc_error_message row' = Some m \<and> length m \<le> 500))"
    if "length m \<le> 500" for m
    using set_document_error_status[OF assms(1), of m] that by auto
  have e2: "\<exists>row'. db_documents (set_document_indexed (st\<lparr>db_chunks := c, db_vectors := v\<rparr>) document_id pc tc) document_id = Some row' \<and>
           (doc_status row' = ''indexed'' \<or>
            doc_status row' = ''error'' \<and>
              (\<exists>m. doc_error_message row' = Some m \<and> length m \<le> 500))"
    for c v pc tc
    using set_document_indexed_status[of "st\<lparr>db_chunks := c, db_vectors := v\<rparr>" document_id row pc tc] assms(1)
    by auto
  have l1: "length ''No extractable text found in file'' \<le> 500" by simp
  have l2: "length ''Failed to create text chunks'' \<le> 500" by simp
  from assms(2) have
    "st' = set_document_error st document_id ''No extractable text found in file'' \<or>
     st' = set_document_error st document_id ''Failed to create text chunks'' \<or>
     (\<exists>c v pc tc. st' = set_document_indexed (st\<lparr>db_chunks := c, db_vectors := v\<rparr>) document_id pc tc)"
    by (auto simp: process_document_body_def Let_def
        split: sum.splits if_splits prod.splits option.splits)
  then show ?thesis
  proof (elim disjE exE)
    assume s: "st' = set_document_error st document_id ''No extractable text found in file''"
    show ?thesis unfolding s by (rule e1[OF l1])
  next
    assume s: "st' = set_document_error st document_id ''Failed to create text chunks''"
    show ?thesis unfolding s by (rule e1[OF l2])
  next
    fix c v pc tc
    assume s: "st' = set_document_indexed (st\<lparr>db_chunks := c, db_vectors := v\<rparr>) document_id pc tc"
    show ?thesis unfolding s by (rule e2)
  qed
qed

lemma example_body_fails:
  "process_document_body (example_env (\<lambda>texts. Inl e)) example_state
     ''doc_1'' ''rec_1'' ''user_1'' ''raw'' ''.txt'' ''a.txt'' ''key'' =
     (Some e,
      example_state\<lparr>db_chunks :=
        [\<lparr>cr_id = ''chunk_0001'', cr_document_id = ''doc_1'',
          cr_encrypted_text = ''enc:the quick brown fox'', cr_token_count = 4,
          cr_chunk_index = 0, cr_page_number = Some 1, cr_section = None\<rparr>]\<rparr>)"
  by (simp add: process_document_body_def example_env_def example_state_def Let_def)

text \<open>
  Claim C7, as the code has it.  The document row exists when the task starts.  When a step
  of the task raises an instance of \<open>Exception\<close>, the task returns normally and the
  document's status is \<open>error\<close>, with the first 500 characters of the exception's text as
  the error message.  An exception outside \<open>Exception\<close> is not caught: it leaves the task and
  the document row is as it was.  Nothing else leaves the task, and a task that returns
  leaves the status \<open>indexed\<close> or \<open>error\<close> with a message of at most 500 characters.
  (Statements on the main database are taken to succeed.)
\<close>

theorem process_document_failure:
  assumes "db_documents st document_id = Some row"
  shows
    "(\<forall>msg st'.
        process_document_body env st document_id record_id user_id raw_bytes extension filename
          encrypted_master_key = (Some (Exc msg), st') \<longrightarrow>
        (\<exists>st'' row'.
           process_document env st document_id record_id user_id raw_bytes extension filename
             encrypted_master_key = (None, st'') \<and>
           db_documents st'' document_id = Some row' \<and>
           doc_status row' = ''error'' \<and>
           doc_error_message row' = Some (py_slice msg 0 500) \<and>
           length (py_slice msg 0 500) \<le> 500)) \<and>
     (\<forall>msg st'.
        process_document_body env st document_id record_id user_id raw_bytes extension filename
          encrypted_master_key = (Some (BaseExc msg), st') \<longrightarrow>
        process_document env st document_id record_id user_id raw_bytes extension filename
          encrypted_master_key = (Some (BaseExc msg), st') \<and>
        db_documents st' = db_documents st) \<and>
     (\<forall>e st''.
        process_document env st document_id record_id user_id raw_bytes extension filename
          encrypted_master_key = (Some e, st'') \<longrightarrow> (\<exists>msg. e = BaseExc msg)) \<and>
     (\<forall>st''.
        process_document env st document_id record_id user_id raw_bytes extension filename
          encrypted_master_key = (None, st'') \<longrightarrow>
        (\<exists>row'. db_documents st'' document_id = Some row' \<and>
           (doc_status row' = ''indexed'' \<or>
            doc_status row' = ''error'' \<and>
              (\<exists>m. doc_error_message row' = Some m \<and> length m \<le> 500))))"
proof (intro conjI allI impI)
  fix msg st'
  assume b: "process_document_body env st document_id record_id user_id raw_bytes extension filename
          encrypted_master_key = (Some (Exc msg), st')"
  from body_keeps_documents[OF b] assms have d: "db_documents st' document_id = Some row" by simp
  from set_document_error_status[OF d, of "py_slice msg 0 500"] obtain row' where
    r: "db_documents (set_document_error st' document_id (py_slice msg 0 500)) document_id = Some row'"
       "doc_status row' = ''error''" "doc_error_message row' = Some (py_slice msg 0 500)"
    by (elim exE conjE)
  have len: "length (py_slice msg 0 500) \<le> 500"
    using length_py_slice_prefix[of 500 msg] by simp
  have p: "process_document env st document_id record_id user_id raw_bytes extension filename
             encrypted_master_key = (None, set_document_error st' document_id (py_slice msg 0 500))"
    by (simp add: process_document_def b)
  show "\<exists>st'' row'.
           process_document env st document_id record_id user_id raw_bytes extension filename
             encrypted_master_key = (None, st'') \<and>
           db_documents st'' document_id = Some row' \<and>
           doc_status row' = ''error'' \<and>
           doc_error_message row' = Some (py_slice msg 0 500) \<and>
           length (py_slice msg 0 500) \<le> 500"
    by (intro exI[of _ "set_document_error st' document_id (py_slice msg 0 500)"] exI[of _ row'] conjI)
       (rule p, rule r(1), rule r(2), rule r(3), rule len)
next
  fix msg st'
  assume b: "process_document_body env st document_id record_id user_id raw_bytes extension filename
          encrypted_master_key = (Some (BaseExc msg), st')"
  show "process_document env st document_id record_id user_id raw_bytes extension filename
          encrypted_master_key = (Some (BaseExc msg), st')"
    by (simp add: process_document_def b)
  show "db_documents st' = db_documents st" by (rule body_keeps_documents[OF b])
next
  fix e st''
  assume "process_document env st document_id record_id user_id raw_bytes extension filename
          encrypted_master_key = (Some e, st'')"
  then show "\<exists>msg. e = BaseExc msg"
    by (auto simp: process_document_def split: prod.splits option.splits py_exc.splits)
next
  fix st''
  assume p: "process_document env st document_id record_id user_id raw_bytes extension filename
          encrypted_master_key = (None, st'')"
  obtain r st' where b: "process_document_body env st document_id record_id user_id raw_bytes extension
      filename encrypted_master_key = (r, st')"
    by (cases "process_document_body env st document_id record_id user_id raw_bytes extension
      filename encrypted_master_key")
  show "\<exists>row'. db_documents st'' document_id = Some row' \<and>
           (doc_status row' = ''indexed'' \<or>
            doc_status row' = ''error'' \<and>
              (\<exists>m. doc_error_message row' = Some m \<and> length m \<le> 500))"
  proof (cases r)
    case None
    with p b have "st'' = st'" by (simp add: process_document_def)
    with body_normal_end[OF assms b[unfolded None]] show ?thesis by simp
  next
    case (Some e)
    show ?thesis
    proof (cases e)
      case (Exc msg)
      from body_keeps_documents[OF b[unfolded Some Exc]] assms
      have d: "db_documents st' document_id = Some row" by simp
      from p b Some Exc have s: "st'' = set_document_error st' document_id (py_slice msg 0 500)"
        by (simp add: process_document_def)
      have "length (py_slice msg 0 500) \<le> 500"
        using length_py_slice_prefix[of 500 msg] by simp
      with set_document_error_status[OF d, of "py_slice msg 0 500"] show ?thesis
        unfolding s by auto
    next
      case (BaseExc msg)
      with p b Some show ?thesis by (simp add: process_document_def)
    qed
  qed
qed

theorem process_document_failure_witness:
  "db_documents example_state ''doc_1'' =
     Some \<lparr>doc_status = ''processing'', doc_error_message = None,
           doc_page_count = 0, doc_token_count = 0\<rparr> \<and>
   fst (process_document_body (example_env (\<lambda>texts. Inl (Exc (replicate 600 CHR ''x'')))) example_state
     ''doc_1'' ''rec_1'' ''user_1'' ''raw'' ''.txt'' ''a.txt'' ''key'') =
     Some (Exc (replicate 600 CHR ''x'')) \<and>
   (\<exists>st'' row'.
      process_document (example_env (\<lambda>texts. Inl (Exc (replicate 600 CHR ''x'')))) example_state
        ''doc_1'' ''rec_1'' ''user_1'' ''raw'' ''.txt'' ''a.txt'' ''key'' = (None, st'') \<and>
      db_documents st'' ''doc_1'' = Some row' \<and>
      doc_status row' = ''error'' \<and>
      doc_error_message row' = Some (replicate 500 CHR ''x''))"
proof -
  have d: "db_documents example_state ''doc_1'' =
     Some \<lparr>doc_status = ''processing'', doc_error_message = None,
           doc_page_count = 0, doc_token_count = 0\<rparr>"
    by (simp add: example_state_def)
  note b = example_body_fails[of "Exc (replicate 600 CHR ''x'')"]
  have f: "fst (process_document_body (example_env (\<lambda>texts. Inl (Exc (replicate 600 CHR ''x'')))) example_state
     ''doc_1'' ''rec_1'' ''user_1'' ''raw'' ''.txt'' ''a.txt'' ''key'') =
     Some (Exc (replicate 600 CHR ''x''))"
    by (simp only: b fst_conv)
  have s: "py_slice (replicate 600 CHR ''x'') 0 500 = replicate 500 CHR ''x''"
    by (simp add: py_slice_def)
  from process_document_failure [OF d, THEN conjunct1, rule_format, OF b]
  have "\<exists>st'' row'.
      process_document (example_env (\<lambda>texts. Inl (Exc (replicate 600 CHR ''x'')))) example_state
        ''doc_1'' ''rec_1'' ''user_1'' ''raw'' ''.txt'' ''a.txt'' ''key'' = (None, st'') \<and>
      db_documents st'' ''doc_1'' = Some row' \<and>
      doc_status row' = ''error'' \<and>
      doc_error_message row' = Some (replicate 500 CHR ''x'')"
    unfolding s by (elim exE conjE) (intro exI conjI)
  with d f show ?thesis by (intro conjI)
qed

theorem process_document_cancelled_counterexample:
  "fst (process_document (example_env (\<lambda>texts. Inl (BaseExc ''CancelledError''))) example_state
     ''doc_1'' ''rec_1'' ''user_1'' ''raw'' ''.txt'' ''a.txt'' ''key'') =
     Some (BaseExc ''CancelledError'') \<and>
   map_option doc_status
     (db_documents
        (snd (process_document (example_env (\<lambda>texts. Inl (BaseExc ''CancelledError''))) example_state
                ''doc_1'' ''rec_1'' ''user_1'' ''raw'' ''.txt'' ''a.txt'' ''key''))
        ''doc_1'') = Some ''processing''"
  by (simp add: process_document_def example_body_fails) (simp add: example_state_def)

end
